theory Spec2Isabelle
  imports Complex_Main "HOL-Library.Log_Nat"
begin

section \<open>Configuration (app.py, lines 13-31)\<close>

text \<open>
  \<^verbatim>\<open>EVAL_DIFFERENCE_THRESHOLD = 100\<close> and
  \<^verbatim>\<open>MAX_WORKERS = os.cpu_count() or 4\<close>.
  \<^verbatim>\<open>os.cpu_count()\<close> returns \<^verbatim>\<open>None\<close> or an integer, so it is an
  argument of type \<open>nat option\<close>; Python's \<^verbatim>\<open>or\<close> takes the right operand when the
  left one is falsy (\<^verbatim>\<open>None\<close> or \<open>0\<close>).
\<close>

definition EVAL_DIFFERENCE_THRESHOLD :: int where
  "EVAL_DIFFERENCE_THRESHOLD = 100"

definition MAX_WORKERS :: "nat option \<Rightarrow> nat" where
  "MAX_WORKERS cpu_count =
     (case cpu_count of None \<Rightarrow> 4 | Some n \<Rightarrow> if n = 0 then 4 else n)"

section \<open>Python values the program handles\<close>

subsection \<open>Exceptions\<close>

text \<open>
  A raised exception is a value. \<open>KeyError\<close> and \<open>IndexError\<close> are raised by the
  program's own subscripts; \<open>ZeroDivisionError\<close> and \<open>OverflowError\<close> by its
  divisions; \<open>Raised msg\<close> is any exception coming out of a call into python-chess, the
  engine process, the file system or the thread pool, with \<open>msg\<close> its \<^verbatim>\<open>str(e)\<close>.
\<close>

datatype py_exception =
    KeyError string
  | IndexError
  | ZeroDivisionError
  | OverflowError
  | Raised string

fun str_exception :: "py_exception \<Rightarrow> string" where
  "str_exception (KeyError k) = [CHR 0x27] @ k @ [CHR 0x27]"
| "str_exception IndexError = ''list index out of range''"
| "str_exception ZeroDivisionError = ''division by zero''"
| "str_exception OverflowError = ''int too large to convert to float''"
| "str_exception (Raised msg) = msg"

subsection \<open>Double-precision arithmetic\<close>

text \<open>
  The program computes \<^verbatim>\<open>int(completed / total_positions * 100)\<close> and
  \<^verbatim>\<open>difference / 100.0\<close> in Python floats (IEEE 754 binary64, round to nearest, ties
  to even). A non-negative double is a pair \<open>(m, e)\<close> standing for \<open>m * 2 ^ e\<close>, with
  \<open>m = 0\<close> or \<open>2 ^ 52 \<le> m < 2 ^ 53\<close>. The exponent of the pair is unbounded. The one
  place where the program can leave the range of binary64 is the conversion of a large
  integer to a float at line 119, and there \<open>py_float\<close> raises as Python does; the
  quotient of two list lengths at line 241 and its product with 100 lie between
  \<open>2 ^ - 64\<close> and 100, far inside the normal range, so subnormal numbers are not part
  of the model.

  \<open>expo n d\<close> is the binary exponent of the fraction \<open>n / d\<close>, that is the integer
  \<open>k\<close> with \<open>2 ^ k \<le> n / d < 2 ^ (k + 1)\<close>; \<open>round_half_even n d\<close> is the integer
  nearest to \<open>n / d\<close>; \<open>fl_round n d e\<close> is the double nearest to \<open>n / d * 2 ^ e\<close>.
\<close>

type_synonym double = "nat \<times> int"

definition expo :: "nat \<Rightarrow> nat \<Rightarrow> int" where
  "expo n d =
     (let k = int (floorlog 2 n) - int (floorlog 2 d) in
      if (if 0 \<le> k then d * 2 ^ nat k \<le> n else d \<le> n * 2 ^ nat (- k)) then k else k - 1)"

definition round_half_even :: "nat \<Rightarrow> nat \<Rightarrow> nat" where
  "round_half_even n d =
     (let q = n div d; r = n mod d in
      if 2 * r < d then q else if d < 2 * r then q + 1 else if even q then q else q + 1)"

definition fl_round :: "nat \<Rightarrow> nat \<Rightarrow> int \<Rightarrow> double" where
  "fl_round n d e =
     (if n = 0 then (0, 0)
      else let s = 52 - expo n d;
               m = (if 0 \<le> s then round_half_even (n * 2 ^ nat s) d
                    else round_half_even n (d * 2 ^ nat (- s)))
           in if m = 2 ^ 53 then (2 ^ 52, e - s + 1) else (m, e - s))"

definition val :: "double \<Rightarrow> real" where
  "val x = real (fst x) * 2 powi (snd x)"

text \<open>
  \<^verbatim>\<open>a / b\<close> on two Python ints is the double nearest to the exact quotient. An int
  that meets a float in an operation (\<^verbatim>\<open>difference / 100.0\<close>) is first converted to
  the double nearest to it, and the conversion raises \<^verbatim>\<open>OverflowError\<close> when that
  double would be \<open>2 ^ 1024\<close> or more, that is when its exponent, for a mantissa of 53
  bits, exceeds 971. A double times or divided by a small integer constant (\<open>100\<close>,
  exactly representable) is the double nearest to the exact result; \<^verbatim>\<open>int(x)\<close>
  truncates.
\<close>

definition py_truediv :: "nat \<Rightarrow> nat \<Rightarrow> double" where
  "py_truediv a b = fl_round a b 0"

definition nearest_double :: "nat \<Rightarrow> double" where
  "nearest_double a = fl_round a 1 0"

definition py_float :: "nat \<Rightarrow> py_exception + double" where
  "py_float a =
     (if 971 < snd (nearest_double a) then Inl OverflowError else Inr (nearest_double a))"

definition fl_mul :: "double \<Rightarrow> nat \<Rightarrow> double" where
  "fl_mul x k = fl_round (fst x * k) 1 (snd x)"

definition fl_div :: "double \<Rightarrow> nat \<Rightarrow> double" where
  "fl_div x k = fl_round (fst x) k (snd x)"

definition py_int :: "double \<Rightarrow> nat" where
  "py_int x = (if 0 \<le> snd x then fst x * 2 ^ nat (snd x) else fst x div 2 ^ nat (- snd x))"

text \<open>Line 240: \<^verbatim>\<open>int(completed / total_positions * 100)\<close>.\<close>

definition percent :: "nat \<Rightarrow> nat \<Rightarrow> nat" where
  "percent completed total_positions = py_int (fl_mul (py_truediv completed total_positions) 100)"

section \<open>Data model\<close>

text \<open>
  python-chess is an external library: the board type \<open>'b\<close> and the move type \<open>'m\<close>
  are parameters, and so are the board operations the program calls.
  \<open>white_to_move b\<close> is \<^verbatim>\<open>board.turn == chess.WHITE\<close>; \<open>san\<close> may raise (an illegal
  move).
\<close>

record ('b, 'm) chess_lib =
  push :: "'b \<Rightarrow> 'm \<Rightarrow> 'b"
  fullmove_number :: "'b \<Rightarrow> nat"
  white_to_move :: "'b \<Rightarrow> bool"
  board_fen :: "'b \<Rightarrow> string"
  san :: "'b \<Rightarrow> 'm \<Rightarrow> py_exception + string"

text \<open>The dictionary \<^verbatim>\<open>position_data\<close> of lines 197-202.\<close>

record 'b position_data =
  board :: 'b
  move_number :: nat
  turn :: string
  game_number :: nat

text \<open>
  The dictionary \<^verbatim>\<open>result\<close> of lines 111-120 (its keys \<^verbatim>\<open>move_number\<close> and
  \<^verbatim>\<open>turn\<close> carry the prefix \<open>cm_\<close>).
\<close>

record critical_moment =
  fen :: string
  cm_move_number :: nat
  cm_turn :: string
  best_move :: string
  best_move_eval :: string
  second_best_move :: string
  second_best_move_eval :: string
  difference :: double

text \<open>
  The dictionary \<^verbatim>\<open>game_info\<close> of lines 182-190 (its key \<^verbatim>\<open>game_number\<close>
  carries the prefix \<open>gi_\<close>).
\<close>

record game_info =
  gi_game_number :: nat
  white :: string
  black :: string
  result :: string
  date :: string
  event :: string
  critical_moments :: "critical_moment list"

text \<open>
  One entry of \<^verbatim>\<open>analysis_progress\<close> is a dictionary from key names to values, and
  the registry is a dictionary from analysis ids to entries.
\<close>

datatype py_value =
    PyNone
  | PyStr string
  | PyInt nat
  | PyGames "game_info list"

type_synonym job = "string \<rightharpoonup> py_value"

type_synonym registry = "string \<rightharpoonup> job"

section \<open>The progress registry\<close>

text \<open>Lines 285-293 of \<^verbatim>\<open>upload_file\<close>: the entry stored at submission.\<close>

definition upload_entry :: "string \<Rightarrow> job" where
  "upload_entry name =
     [''filename'' \<mapsto> PyStr name, ''status'' \<mapsto> PyStr ''starting'', ''progress'' \<mapsto> PyInt 0,
      ''total_moves'' \<mapsto> PyInt 0, ''current_move'' \<mapsto> PyInt 0, ''results'' \<mapsto> PyNone,
      ''error'' \<mapsto> PyNone]"

text \<open>The six initial fields written at lines 144-151 and again at lines 155-164.\<close>

definition starting_fields :: job where
  "starting_fields =
     [''status'' \<mapsto> PyStr ''starting'', ''progress'' \<mapsto> PyInt 0, ''total_moves'' \<mapsto> PyInt 0,
      ''current_move'' \<mapsto> PyInt 0, ''results'' \<mapsto> PyNone, ''error'' \<mapsto> PyNone]"

text \<open>
  Lines 143-164: a new id gets the six fields; for a known id \<^verbatim>\<open>dict.update\<close>
  overwrites the six fields and keeps every other key of the entry.
\<close>

definition init_entry :: "registry \<Rightarrow> string \<Rightarrow> job" where
  "init_entry analysis_progress analysis_id =
     (case analysis_progress analysis_id of
        None \<Rightarrow> starting_fields
      | Some entry \<Rightarrow> entry ++ starting_fields)"

definition init_progress :: "registry \<Rightarrow> string \<Rightarrow> registry" where
  "init_progress analysis_progress analysis_id =
     analysis_progress(analysis_id \<mapsto> init_entry analysis_progress analysis_id)"

text \<open>
  Lines 317-330, \<^verbatim>\<open>get_progress\<close>: the HTTP status and the JSON object of the
  response. \<^verbatim>\<open>jsonify\<close> serialises the whole entry.
\<close>

definition not_found_message :: string where
  "not_found_message = ''Analyse non trouv'' @ [CHR 0xC3, CHR 0xA9] @ ''e''"

definition get_progress :: "registry \<Rightarrow> string \<Rightarrow> nat \<times> job" where
  "get_progress analysis_progress analysis_id =
     (case analysis_progress analysis_id of
        None \<Rightarrow> (404, [''error'' \<mapsto> PyStr not_found_message])
      | Some entry \<Rightarrow> (200, entry))"

section \<open>Loading and enumerating (lines 168-209)\<close>

text \<open>
  What \<^verbatim>\<open>chess.pgn.read_game\<close> delivers for one game: the headers, the starting
  board \<^verbatim>\<open>game.board()\<close> and the list \<^verbatim>\<open>list(game.mainline_moves())\<close>.
\<close>

record ('b, 'm) parsed_game =
  headers :: "string \<rightharpoonup> string"
  start_board :: 'b
  mainline_moves :: "'m list"

text \<open>
  The headers \<^verbatim>\<open>chess.pgn.read_game\<close> delivers for a game whose text has the tag
  pairs \<open>tags\<close>: python-chess creates every game with the seven tags of the PGN roster
  filled in with placeholders, and the tags of the text replace or extend them. A
  parsed game therefore always has the keys \<^verbatim>\<open>White\<close>, \<^verbatim>\<open>Black\<close>,
  \<^verbatim>\<open>Result\<close>, \<^verbatim>\<open>Date\<close> and \<^verbatim>\<open>Event\<close>.
\<close>

definition seven_tag_roster :: "string \<rightharpoonup> string" where
  "seven_tag_roster =
     [''Event'' \<mapsto> ''?'', ''Site'' \<mapsto> ''?'', ''Date'' \<mapsto> ''????.??.??'', ''Round'' \<mapsto> ''?'',
      ''White'' \<mapsto> ''?'', ''Black'' \<mapsto> ''?'', ''Result'' \<mapsto> ''*'']"

definition pgn_headers :: "(string \<rightharpoonup> string) \<Rightarrow> (string \<rightharpoonup> string)" where
  "pgn_headers tags = seven_tag_roster ++ tags"

text \<open>\<^verbatim>\<open>game.headers.get(key, fallback)\<close>.\<close>

definition headers_get :: "(string \<rightharpoonup> string) \<Rightarrow> string \<Rightarrow> string \<Rightarrow> string" where
  "headers_get h key fallback = (case h key of None \<Rightarrow> fallback | Some v \<Rightarrow> v)"

text \<open>Lines 182-190.\<close>

definition make_game_info :: "nat \<Rightarrow> (string \<rightharpoonup> string) \<Rightarrow> game_info" where
  "make_game_info game_count h =
     \<lparr>gi_game_number = game_count,
      white = headers_get h ''White'' ''Inconnu'',
      black = headers_get h ''Black'' ''Inconnu'',
      result = headers_get h ''Result'' ''*'',
      date = headers_get h ''Date'' ''Inconnu'',
      event = headers_get h ''Event'' ''Inconnu'',
      critical_moments = []\<rparr>"

text \<open>
  Lines 195-207, the loop over the moves of one game: the position is appended before
  the move is pushed. \<^verbatim>\<open>board.copy()\<close> is the board value itself.
\<close>

fun collect_positions ::
  "('b, 'm) chess_lib \<Rightarrow> nat \<Rightarrow> 'b \<Rightarrow> 'm list \<Rightarrow> 'b position_data list \<Rightarrow> 'b position_data list"
where
  "collect_positions lib game_count b [] all_positions = all_positions"
| "collect_positions lib game_count b (mv # moves) all_positions =
     collect_positions lib game_count (push lib b mv) moves
       (all_positions @
        [\<lparr>board = b,
          move_number = fullmove_number lib b,
          turn = (if white_to_move lib b then ''Blancs'' else ''Noirs''),
          game_number = game_count\<rparr>])"

text \<open>
  Lines 174-209, the loop over the games of the corpus, with its three accumulators
  \<^verbatim>\<open>game_count\<close>, \<^verbatim>\<open>all_games\<close> and \<^verbatim>\<open>all_positions\<close>.
\<close>

fun read_games ::
  "('b, 'm) chess_lib \<Rightarrow> ('b, 'm) parsed_game list \<Rightarrow> nat \<Rightarrow> game_info list \<Rightarrow>
   'b position_data list \<Rightarrow> game_info list \<times> 'b position_data list"
where
  "read_games lib [] game_count all_games all_positions = (all_games, all_positions)"
| "read_games lib (game # rest) game_count all_games all_positions =
     read_games lib rest (game_count + 1)
       (all_games @ [make_game_info (game_count + 1) (headers game)])
       (collect_positions lib (game_count + 1) (start_board game) (mainline_moves game)
          all_positions)"

section \<open>Analysing one position (lines 65-131)\<close>

text \<open>
  What the program reads of one \<^verbatim>\<open>info[i]["score"].white()\<close>: the value of
  \<^verbatim>\<open>.score(mate_score=10000)\<close>, which is an integer or \<^verbatim>\<open>None\<close>, and its
  \<^verbatim>\<open>str\<close>.
\<close>

record white_score =
  score_mate_10000 :: "int option"
  score_str :: string

text \<open>
  One element of the list \<^verbatim>\<open>engine.analyse\<close> returns: a dictionary in which the
  keys \<^verbatim>\<open>"score"\<close> and \<^verbatim>\<open>"pv"\<close> may be absent.
\<close>

record 'm info_dict =
  score :: "white_score option"
  pv :: "'m list option"

text \<open>
  How the engine behaves during one call of \<^verbatim>\<open>analyze_position\<close>: whether
  \<^verbatim>\<open>popen_uci\<close> raises, what the two \<^verbatim>\<open>analyse\<close> calls return or raise, and
  whether \<^verbatim>\<open>engine.quit()\<close> raises, inside the \<^verbatim>\<open>try\<close> block (lines 88, 121,
  124) and inside the \<^verbatim>\<open>except\<close> block (line 130). The four
  \<^verbatim>\<open>engine.configure\<close> calls of \<^verbatim>\<open>configure_stockfish\<close> are not listed: every
  exception of theirs is caught at line 60 and the function returns nothing.
\<close>

record 'm engine_run =
  popen_uci :: "py_exception option"
  probe :: "py_exception + 'm info_dict list"
  analysis :: "py_exception + 'm info_dict list"
  quit_in_try :: "py_exception option"
  quit_in_except :: "py_exception option"

text \<open>Sequencing of steps that may raise.\<close>

definition and_then :: "py_exception + 'a \<Rightarrow> ('a \<Rightarrow> py_exception + 'c) \<Rightarrow> py_exception + 'c" where
  "and_then r f = (case r of Inl e \<Rightarrow> Inl e | Inr x \<Rightarrow> f x)"

text \<open>\<^verbatim>\<open>info[i]["score"].white()\<close> and \<^verbatim>\<open>info[i]["pv"][0]\<close>.\<close>

definition get_score :: "'m info_dict \<Rightarrow> py_exception + white_score" where
  "get_score i = (case score i of None \<Rightarrow> Inl (KeyError ''score'') | Some s \<Rightarrow> Inr s)"

definition first_pv_move :: "'m info_dict \<Rightarrow> py_exception + 'm" where
  "first_pv_move i =
     (case pv i of
        None \<Rightarrow> Inl (KeyError ''pv'')
      | Some [] \<Rightarrow> Inl IndexError
      | Some (mv # _) \<Rightarrow> Inr mv)"

text \<open>
  Lines 94-120: the decision on the list \<^verbatim>\<open>info\<close>. The value is the dictionary
  \<^verbatim>\<open>result\<close> when the position qualifies, \<^verbatim>\<open>None\<close> when control reaches line
  124, or the exception raised on the way. The entries of the dictionary are evaluated
  in the order they are written, \<^verbatim>\<open>difference / 100.0\<close> last.
\<close>

definition detect ::
  "('b, 'm) chess_lib \<Rightarrow> 'b position_data \<Rightarrow> 'm info_dict list \<Rightarrow>
   py_exception + critical_moment option"
where
  "detect lib position_data info =
     (if 2 \<le> length info then
        and_then (get_score (info ! 0)) (\<lambda>score1.
        and_then (get_score (info ! 1)) (\<lambda>score2.
          case (score_mate_10000 score1, score_mate_10000 score2) of
            (Some eval1_cp, Some eval2_cp) \<Rightarrow>
              (let difference = \<bar>eval1_cp - eval2_cp\<bar> in
               if EVAL_DIFFERENCE_THRESHOLD < difference \<and> (- 50 < eval2_cp \<and> eval2_cp < 50) then
                 and_then (first_pv_move (info ! 0)) (\<lambda>mv1.
                 and_then (san lib (board position_data) mv1) (\<lambda>san1.
                 and_then (first_pv_move (info ! 1)) (\<lambda>mv2.
                 and_then (san lib (board position_data) mv2) (\<lambda>san2.
                 and_then (py_float (nat difference)) (\<lambda>float_difference.
                   Inr (Some
                     \<lparr>fen = board_fen lib (board position_data),
                      cm_move_number = move_number position_data,
                      cm_turn = turn position_data,
                      best_move = san1,
                      best_move_eval = score_str score1,
                      second_best_move = san2,
                      second_best_move_eval = score_str score2,
                      difference = fl_div float_difference 100\<rparr>))))))
               else Inr None)
          | _ \<Rightarrow> Inr None))
      else Inr None)"

text \<open>
  Lines 80-125, the body of the \<^verbatim>\<open>try\<close> block. An exception comes with a flag:
  whether the local variable \<^verbatim>\<open>engine\<close> was bound when it was raised.
\<close>

definition try_body ::
  "('b, 'm) chess_lib \<Rightarrow> 'm engine_run \<Rightarrow> 'b position_data \<Rightarrow>
   (bool \<times> py_exception) + critical_moment option"
where
  "try_body lib run position_data =
     (case popen_uci run of
        Some e \<Rightarrow> Inl (False, e)
      | None \<Rightarrow>
          (case probe run of
             Inl e \<Rightarrow> Inl (True, e)
           | Inr position_before \<Rightarrow>
               if position_before = [] then
                 (case quit_in_try run of Some e \<Rightarrow> Inl (True, e) | None \<Rightarrow> Inr None)
               else
                 (case analysis run of
                    Inl e \<Rightarrow> Inl (True, e)
                  | Inr info \<Rightarrow>
                      (case detect lib position_data info of
                         Inl e \<Rightarrow> Inl (True, e)
                       | Inr r \<Rightarrow>
                           (case quit_in_try run of
                              Some e \<Rightarrow> Inl (True, e)
                            | None \<Rightarrow> Inr r)))))"

text \<open>
  \<^verbatim>\<open>analyze_position\<close>: the \<^verbatim>\<open>try\<close> block and the handler of lines 127-131,
  which calls \<^verbatim>\<open>engine.quit()\<close> when \<^verbatim>\<open>engine\<close> is bound and then returns
  \<^verbatim>\<open>None\<close>. \<open>Inl e\<close> is an exception leaving the function.
\<close>

definition analyze_position ::
  "('b, 'm) chess_lib \<Rightarrow> 'm engine_run \<Rightarrow> 'b position_data \<Rightarrow>
   py_exception + critical_moment option"
where
  "analyze_position lib run position_data =
     (case try_body lib run position_data of
        Inr r \<Rightarrow> Inr r
      | Inl (engine_bound, e) \<Rightarrow>
          if engine_bound then
            (case quit_in_except run of Some e' \<Rightarrow> Inl e' | None \<Rightarrow> Inr None)
          else Inr None)"

section \<open>The job (lines 134-261)\<close>

text \<open>
  Lines 249-252: the moment is appended to the first game whose number matches.
\<close>

fun add_moment :: "nat \<Rightarrow> critical_moment \<Rightarrow> game_info list \<Rightarrow> game_info list" where
  "add_moment n r [] = []"
| "add_moment n r (game # games) =
     (if gi_game_number game = n
      then game\<lparr>critical_moments := critical_moments game @ [r]\<rparr> # games
      else game # add_moment n r games)"

text \<open>
  One assignment \<^verbatim>\<open>analysis_progress[analysis_id][key] = value\<close>. The job is the only
  writer of its entry, and a poll can read the entry between any two assignments.
\<close>

type_synonym assignment = "string \<times> py_value"

definition apply_write :: "job \<Rightarrow> assignment \<Rightarrow> job" where
  "apply_write entry w = entry(fst w \<mapsto> snd w)"

text \<open>
  The pool, as the loop of lines 235-254 sees it: a list of events in the order
  \<^verbatim>\<open>as_completed\<close> delivers them. \<open>Inr i\<close> is the completion of the future
  submitted for \<^verbatim>\<open>all_positions[i]\<close>; \<open>Inl e\<close> is an exception raised by the executor
  itself (on construction, in \<^verbatim>\<open>submit\<close>, or while iterating), which leaves the
  \<^verbatim>\<open>with\<close> blocks. \<open>runs i\<close> is the engine's behaviour in the worker of task \<open>i\<close>.

  Lines 244-254: the result of the future is read inside a \<^verbatim>\<open>try\<close> that swallows
  every exception, so a worker that raised contributes nothing. An index that belongs
  to no submitted task cannot be delivered; the model leaves \<^verbatim>\<open>all_games\<close>
  unchanged there.
\<close>

definition record_result ::
  "('b, 'm) chess_lib \<Rightarrow> (nat \<Rightarrow> 'm engine_run) \<Rightarrow> 'b position_data list \<Rightarrow>
   game_info list \<Rightarrow> nat \<Rightarrow> game_info list"
where
  "record_result lib runs all_positions all_games i =
     (if i < length all_positions then
        (case analyze_position lib (runs i) (all_positions ! i) of
           Inr (Some r) \<Rightarrow> add_moment (game_number (all_positions ! i)) r all_games
         | _ \<Rightarrow> all_games)
      else all_games)"

text \<open>
  Lines 232-254. The loop returns the assignments it made and either the exception
  that ended it or the list \<^verbatim>\<open>all_games\<close>. The division of line 241 raises when
  \<^verbatim>\<open>total_positions\<close> is zero.
\<close>

fun completion_loop ::
  "('b, 'm) chess_lib \<Rightarrow> (nat \<Rightarrow> 'm engine_run) \<Rightarrow> 'b position_data list \<Rightarrow>
   (py_exception + nat) list \<Rightarrow> nat \<Rightarrow> game_info list \<Rightarrow>
   assignment list \<times> (py_exception + game_info list)"
where
  "completion_loop lib runs all_positions [] completed all_games = ([], Inr all_games)"
| "completion_loop lib runs all_positions (Inl e # events) completed all_games = ([], Inl e)"
| "completion_loop lib runs all_positions (Inr i # events) completed all_games =
     (if length all_positions = 0 then
        ([(''current_move'', PyInt (completed + 1))], Inl ZeroDivisionError)
      else
        (let rest =
           completion_loop lib runs all_positions events (completed + 1)
             (record_result lib runs all_positions all_games i)
         in ([(''current_move'', PyInt (completed + 1)),
              (''progress'', PyInt (percent (completed + 1) (length all_positions)))] @ fst rest,
             snd rest)))"

text \<open>
  Lines 166-261: the assignments the job makes to its entry after the initialisation,
  in order. \<open>corpus\<close> is what opening and parsing the file gives: an exception, or the
  parsed games.
\<close>

definition job_writes ::
  "('b, 'm) chess_lib \<Rightarrow> py_exception + ('b, 'm) parsed_game list \<Rightarrow>
   (nat \<Rightarrow> 'm engine_run) \<Rightarrow> (py_exception + nat) list \<Rightarrow> assignment list"
where
  "job_writes lib corpus runs events =
     (case corpus of
        Inl e \<Rightarrow> [(''error'', PyStr (str_exception e))]
      | Inr games \<Rightarrow>
          (let loaded = read_games lib games 0 [] [];
               all_games = fst loaded;
               all_positions = snd loaded
           in if all_games = [] then [(''error'', PyStr ''Le fichier PGN est invalide ou vide.'')]
              else
                (let looped = completion_loop lib runs all_positions events 0 all_games
                 in [(''total_moves'', PyInt (length all_positions)),
                     (''status'', PyStr ''analyzing'')] @ fst looped @
                    (case snd looped of
                       Inl e \<Rightarrow> [(''error'', PyStr (str_exception e))]
                     | Inr final_games \<Rightarrow>
                         [(''status'', PyStr ''completed''), (''results'', PyGames final_games)]))))"

text \<open>
  The states of the entry a poll can observe: the entry after the initialisation and
  after each assignment. The job runs in its own thread and takes no lock, so a request
  can be served between any two assignments; reading the entry for the response is
  taken as one step, so that a poll sees one of these states.
\<close>

fun entry_states :: "job \<Rightarrow> assignment list \<Rightarrow> job list" where
  "entry_states entry [] = [entry]"
| "entry_states entry (w # ws) = entry # entry_states (apply_write entry w) ws"

text \<open>\<^verbatim>\<open>analyze_pgn_async\<close>: the registry when the function returns.\<close>

definition analyze_pgn_async ::
  "('b, 'm) chess_lib \<Rightarrow> registry \<Rightarrow> string \<Rightarrow> py_exception + ('b, 'm) parsed_game list \<Rightarrow>
   (nat \<Rightarrow> 'm engine_run) \<Rightarrow> (py_exception + nat) list \<Rightarrow> registry"
where
  "analyze_pgn_async lib analysis_progress analysis_id corpus runs events =
     analysis_progress(analysis_id \<mapsto>
       foldl apply_write (init_entry analysis_progress analysis_id)
         (job_writes lib corpus runs events))"

text \<open>
  Lines 333-364, \<^verbatim>\<open>get_results\<close>: which of its four responses is sent.
\<close>

datatype results_response =
    NotFound
  | ResultsPage py_value
  | ErrorPage py_value
  | StillProcessing

definition get_results :: "registry \<Rightarrow> string \<Rightarrow> py_exception + results_response" where
  "get_results analysis_progress analysis_id =
     (case analysis_progress analysis_id of
        None \<Rightarrow> Inr NotFound
      | Some entry \<Rightarrow>
          (case entry ''status'' of
             None \<Rightarrow> Inl (KeyError ''status'')
           | Some st \<Rightarrow>
               if st = PyStr ''completed'' then
                 (case entry ''results'' of
                    None \<Rightarrow> Inl (KeyError ''results'')
                  | Some r \<Rightarrow> Inr (ResultsPage r))
               else if st = PyStr ''error'' then
                 (case entry ''error'' of
                    None \<Rightarrow> Inl (KeyError ''error'')
                  | Some m \<Rightarrow> Inr (ErrorPage m))
               else Inr StillProcessing))"

section \<open>Definitions used to state and prove the properties\<close>

subsection \<open>Rounding on the reals\<close>

text \<open>
  The reference against which \<open>fl_round\<close> is proved: \<open>rne x\<close> is the integer nearest
  to the real \<open>x\<close>, ties to even, and \<open>fl E x\<close> rounds \<open>x\<close> to 53 significant bits
  when \<open>E\<close> is its binary exponent.
\<close>

definition rne :: "real \<Rightarrow> int" where
  "rne x = (let q = \<lfloor>x\<rfloor>; f = x - of_int q in
            if f < 1/2 then q else if 1/2 < f then q + 1 else if even q then q else q + 1)"

definition fl :: "int \<Rightarrow> real \<Rightarrow> real" where
  "fl E x = of_int (rne (x * 2 powi (52 - E))) * 2 powi (E - 52)"

subsection \<open>The enumeration, as the specification words it\<close>

text \<open>
  The board of a game before its ply \<open>k\<close> (counted from 0): the starting board after
  the first \<open>k\<close> moves of the mainline. \<open>position_task lib n game k\<close> is the task the
  specification asks for at that ply of the game numbered \<open>n\<close>.
\<close>

definition board_before :: "('b, 'm) chess_lib \<Rightarrow> ('b, 'm) parsed_game \<Rightarrow> nat \<Rightarrow> 'b" where
  "board_before lib game k = foldl (push lib) (start_board game) (take k (mainline_moves game))"

definition position_task ::
  "('b, 'm) chess_lib \<Rightarrow> nat \<Rightarrow> ('b, 'm) parsed_game \<Rightarrow> nat \<Rightarrow> 'b position_data"
where
  "position_task lib n game k =
     \<lparr>board = board_before lib game k,
      move_number = fullmove_number lib (board_before lib game k),
      turn = (if white_to_move lib (board_before lib game k) then ''Blancs'' else ''Noirs''),
      game_number = n\<rparr>"

subsection \<open>Keys and fields of an entry\<close>

definition written_keys :: "string set" where
  "written_keys =
     {''status'', ''progress'', ''total_moves'', ''current_move'', ''results'', ''error''}"

definition numeric_keys :: "string set" where
  "numeric_keys = {''current_move'', ''total_moves'', ''progress''}"

text \<open>A numeric field of an entry, read as a number (0 when it holds no number).\<close>

definition nat_field :: "job \<Rightarrow> string \<Rightarrow> nat" where
  "nat_field entry key = (case entry key of Some (PyInt n) \<Rightarrow> n | _ \<Rightarrow> 0)"

subsection \<open>The positions and the aggregated moments of a job\<close>

text \<open>The positions a corpus yields: none when the file cannot be read.\<close>

definition enumerated ::
  "('b, 'm) chess_lib \<Rightarrow> py_exception + ('b, 'm) parsed_game list \<Rightarrow> 'b position_data list"
where
  "enumerated lib corpus =
     (case corpus of Inl e \<Rightarrow> [] | Inr games \<Rightarrow> snd (read_games lib games 0 [] []))"

text \<open>
  The critical moments of the game numbered \<open>n\<close>, in completion order: the results of
  the tasks of \<open>order\<close> that belong to the game and whose worker returned a record.
\<close>

definition moments_of ::
  "('b, 'm) chess_lib \<Rightarrow> (nat \<Rightarrow> 'm engine_run) \<Rightarrow> 'b position_data list \<Rightarrow> nat list \<Rightarrow>
   nat \<Rightarrow> critical_moment list"
where
  "moments_of lib runs all_positions order n =
     concat (map (\<lambda>i. if i < length all_positions \<and> game_number (all_positions ! i) = n
                        then (case analyze_position lib (runs i) (all_positions ! i) of
                                Inr (Some r) \<Rightarrow> [r]
                              | _ \<Rightarrow> [])
                        else []) order)"

subsection \<open>Sample inputs\<close>

text \<open>
  A stand-in for python-chess in which a board is the number of plies played and a
  move is its own notation; a game whose text has no tag pairs and no moves; an engine
  that answers with two lines of the given evaluations; an engine whose process dies
  during the probe, so that shutting it down fails as well; an engine that answers with
  the two lines of evaluations 200 and 10 and then fails to shut down once, at line 121.
\<close>

definition plain_lib :: "(nat, string) chess_lib" where
  "plain_lib =
     \<lparr>push = (\<lambda>b mv. b + 1),
      fullmove_number = (\<lambda>b. b div 2 + 1),
      white_to_move = (\<lambda>b. even b),
      board_fen = (\<lambda>b. ''fen''),
      san = (\<lambda>b mv. Inr mv)\<rparr>"

definition bare_game :: "(nat, string) parsed_game" where
  "bare_game = \<lparr>headers = pgn_headers Map.empty, start_board = 0, mainline_moves = []\<rparr>"

definition two_lines :: "int \<Rightarrow> int \<Rightarrow> string engine_run" where
  "two_lines eval_best eval_second =
     \<lparr>popen_uci = None,
      probe = Inr
        [\<lparr>score = Some \<lparr>score_mate_10000 = Some eval_best, score_str = ''a''\<rparr>,
          pv = Some [''e4'']\<rparr>],
      analysis = Inr
        [\<lparr>score = Some \<lparr>score_mate_10000 = Some eval_best, score_str = ''a''\<rparr>,
          pv = Some [''e4'']\<rparr>,
         \<lparr>score = Some \<lparr>score_mate_10000 = Some eval_second, score_str = ''b''\<rparr>,
          pv = Some [''d4'']\<rparr>],
      quit_in_try = None,
      quit_in_except = None\<rparr>"

definition first_position :: "nat position_data" where
  "first_position = \<lparr>board = 0, move_number = 1, turn = ''Blancs'', game_number = 1\<rparr>"

definition quit_fails_once :: "string engine_run" where
  "quit_fails_once = (two_lines 200 10)\<lparr>quit_in_try := Some (Raised ''engine timed out'')\<rparr>"

definition dead_engine :: "string engine_run" where
  "dead_engine =
     \<lparr>popen_uci = None,
      probe = Inl (Raised ''engine process died''),
      analysis = Inl (Raised ''engine process died''),
      quit_in_try = Some (Raised ''engine event loop dead''),
      quit_in_except = Some (Raised ''engine event loop dead'')\<rparr>"

text \<open>
  A game of two plies, and a registry of two jobs: job \<open>a\<close> has run to completion
  before, job \<open>b\<close> has just been uploaded.
\<close>

definition two_ply_game :: "(nat, string) parsed_game" where
  "two_ply_game =
     \<lparr>headers = pgn_headers Map.empty, start_board = 0, mainline_moves = [''e4'', ''e5'']\<rparr>"

text \<open>
  A pool in which every worker meets the engine of two lines with evaluations 200 and
  10, and one in which every worker meets the dying engine.
\<close>

definition sharp_engines :: "nat \<Rightarrow> string engine_run" where
  "sharp_engines i = two_lines 200 10"

definition dead_engines :: "nat \<Rightarrow> string engine_run" where
  "dead_engines i = dead_engine"

definition two_jobs :: registry where
  "two_jobs =
     [''a'' \<mapsto> (upload_entry ''first.pgn'')(''status'' \<mapsto> PyStr ''completed'',
                                            ''progress'' \<mapsto> PyInt 100),
      ''b'' \<mapsto> upload_entry ''second.pgn'']"

section \<open>Properties of the double-precision model\<close>

text \<open>
  The rounding of \<open>fl_round\<close> agrees with \<open>fl\<close> on the reals, it is monotone, and
  so is the percentage of line 240.
\<close>

lemma rne_of_int: "rne (of_int k) = k"
  by (simp add: rne_def)

lemma rne_mono:
  assumes "x \<le> y"
  shows "rne x \<le> rne y"
proof -
  have fl: "\<lfloor>x\<rfloor> \<le> \<lfloor>y\<rfloor>" using assms by (rule floor_mono)
  have bx: "rne x \<le> \<lfloor>x\<rfloor> + 1" and by': "\<lfloor>y\<rfloor> \<le> rne y"
    by (simp_all add: rne_def Let_def)
  show ?thesis
  proof (cases "\<lfloor>x\<rfloor> = \<lfloor>y\<rfloor>")
    case True
    then have "x - of_int \<lfloor>x\<rfloor> \<le> y - of_int \<lfloor>y\<rfloor>" using assms by simp
    then show ?thesis using True
      by (auto simp add: rne_def Let_def)
  next
    case False
    then have "\<lfloor>x\<rfloor> + 1 \<le> \<lfloor>y\<rfloor>" using fl by linarith
    then show ?thesis using bx by' by linarith
  qed
qed

lemma round_half_even_rne:
  assumes "0 < d"
  shows "int (round_half_even n d) = rne (real n / real d)"
proof -
  have q: "\<lfloor>real n / real d\<rfloor> = int (n div d)"
    by (simp add: floor_divide_of_nat_eq)
  have "real n = real (n div d) * real d + real (n mod d)"
    by (metis div_mult_mod_eq of_nat_add of_nat_mult)
  then have f: "real n / real d - real (n div d) = real (n mod d) / real d"
    using assms by (simp add: field_simps)
  have lt: "real (n mod d) / real d < 1/2 \<longleftrightarrow> 2 * (n mod d) < d"
    using assms by (simp add: field_simps) (metis of_nat_less_iff of_nat_mult of_nat_numeral mult.commute)
  have gt: "1/2 < real (n mod d) / real d \<longleftrightarrow> d < 2 * (n mod d)"
    using assms by (simp add: field_simps) (metis of_nat_less_iff of_nat_mult of_nat_numeral mult.commute)
  show ?thesis
    unfolding rne_def round_half_even_def Let_def q
    using f lt gt by simp
qed


lemma expo_test:
  assumes "0 < n" "0 < d"
  shows "(if 0 \<le> k then d * 2 ^ nat k \<le> n else d \<le> n * 2 ^ nat (- k))
         \<longleftrightarrow> 2 powi k \<le> real n / real d"
proof (cases "0 \<le> k")
  case True
  have "d * 2 ^ nat k \<le> n \<longleftrightarrow> real d * 2 ^ nat k \<le> real n"
    by (metis of_nat_le_iff of_nat_mult of_nat_numeral of_nat_power)
  then show ?thesis using True assms
    by (simp add: power_int_def field_simps)
next
  case False
  have "d \<le> n * 2 ^ nat (- k) \<longleftrightarrow> real d \<le> real n * 2 ^ nat (- k)"
    by (metis of_nat_le_iff of_nat_mult of_nat_numeral of_nat_power)
  then show ?thesis using False assms
    by (simp add: power_int_def field_simps)
qed

lemma expo_bounds:
  assumes "0 < n" "0 < d"
  shows "2 powi (expo n d) \<le> real n / real d" and "real n / real d < 2 powi (expo n d + 1)"
proof -
  define a where "a = floorlog 2 n"
  define b where "b = floorlog 2 d"
  define k where "k = int a - int b"
  have an: "2 ^ (a - 1) \<le> n" "n < 2 ^ a" and bd: "2 ^ (b - 1) \<le> d" "d < 2 ^ b"
    using floorlog_bounds [where b = 2 and x = n] floorlog_bounds [where b = 2 and x = d] assms
    by (simp_all add: a_def b_def)
  have a1: "1 \<le> a" and b1: "1 \<le> b"
    using an bd assms by (auto simp: Suc_le_eq intro: Nat.gr0I)
  have ia: "int a - 1 = int (a - 1)" and ib: "int b - 1 = int (b - 1)"
    using a1 b1 by simp_all
  have pa: "(2::real) powi (int a - 1) = real (2 ^ (a - 1))" "(2::real) powi (int a) = real (2 ^ a)"
    by (simp_all only: ia power_int_of_nat of_nat_power of_nat_numeral)
  have pb: "(2::real) powi (int b - 1) = real (2 ^ (b - 1))" "(2::real) powi (int b) = real (2 ^ b)"
    by (simp_all only: ib power_int_of_nat of_nat_power of_nat_numeral)
  have ra: "2 powi (int a - 1) \<le> real n" "real n < 2 powi (int a)"
    unfolding pa using an by (simp_all only: of_nat_le_iff of_nat_less_iff)
  have rb: "2 powi (int b - 1) \<le> real d" "real d < 2 powi (int b)"
    unfolding pb using bd by (simp_all only: of_nat_le_iff of_nat_less_iff)
  have up: "real n / real d < 2 powi (k + 1)"
  proof -
    have "real n < 2 powi (int a)" by (rule ra)
    also have "\<dots> = 2 powi (k + 1) * 2 powi (int b - 1)"
      using power_int_add [of "2::real" "k + 1" "int b - 1"] by (simp only: k_def) simp
    also have "\<dots> \<le> 2 powi (k + 1) * real d"
      using rb by (simp)
    finally show ?thesis using assms by (simp add: field_simps)
  qed
  have lo: "2 powi (k - 1) < real n / real d"
  proof -
    have "2 powi (k - 1) * real d < 2 powi (k - 1) * 2 powi (int b)"
      using rb by simp
    also have "\<dots> = 2 powi (int a - 1)"
      using power_int_add [of "2::real" "k - 1" "int b"] by (simp only: k_def) simp
    also have "\<dots> \<le> real n" by (rule ra)
    finally show ?thesis using assms by (simp add: field_simps)
  qed
  have e: "expo n d = (if 2 powi k \<le> real n / real d then k else k - 1)"
    unfolding expo_def a_def [symmetric] b_def [symmetric] k_def [symmetric] Let_def
    by (simp only: expo_test [OF assms])
  show "2 powi (expo n d) \<le> real n / real d"
    using e lo by (auto simp: less_imp_le)
  show "real n / real d < 2 powi (expo n d + 1)"
    using e up by (auto simp: not_le)
qed


lemma two_powi_add: "(2::real) powi (a + b) = 2 powi a * 2 powi b"
  by (rule power_int_add) simp

lemma two_powi_le: "a \<le> b \<Longrightarrow> (2::real) powi a \<le> 2 powi b"
  by (rule power_int_increasing) simp_all

lemma two_powi_less_cancel:
  assumes "(2::real) powi a < 2 powi b"
  shows "a < b"
proof (rule ccontr)
  assume "\<not> a < b"
  then have "(2::real) powi b \<le> 2 powi a" by (intro two_powi_le) simp
  with assms show False by simp
qed

lemma scaled_mantissa:
  assumes "0 < d"
  shows "int (if 0 \<le> s then round_half_even (n * 2 ^ nat s) d
              else round_half_even n (d * 2 ^ nat (- s)))
         = rne (real n / real d * 2 powi s)"
proof (cases "0 \<le> s")
  case True
  have p: "(2::real) powi s = 2 ^ nat s" using True by (rule power_int_nonneg_exp)
  have eq: "real (n * 2 ^ nat s) / real d = real n / real d * 2 powi s"
    unfolding p by simp
  have "int (round_half_even (n * 2 ^ nat s) d) = rne (real (n * 2 ^ nat s) / real d)"
    by (rule round_half_even_rne [OF assms])
  then show ?thesis
    unfolding eq using True by simp
next
  case False
  have pos: "0 < d * 2 ^ nat (- s)" using assms by simp
  have "(2::real) powi s = inverse (2 powi (- s))"
    using power_int_minus [of "2::real" "- s"] by simp
  also have "(2::real) powi (- s) = 2 ^ nat (- s)"
    using False by (intro power_int_nonneg_exp) simp
  finally have p: "(2::real) powi s = inverse (2 ^ nat (- s))" .
  have eq: "real n / real (d * 2 ^ nat (- s)) = real n / real d * 2 powi s"
    unfolding p by (simp add: field_simps)
  have "int (round_half_even n (d * 2 ^ nat (- s))) = rne (real n / real (d * 2 ^ nat (- s)))"
    by (rule round_half_even_rne [OF pos])
  then show ?thesis
    unfolding eq using False by simp
qed

lemma val_fl_round:
  assumes "0 < n" "0 < d"
  shows "val (fl_round n d e) = fl (expo n d + e) (real n / real d * 2 powi e)"
proof -
  define s where "s = 52 - expo n d"
  define m where "m = (if 0 \<le> s then round_half_even (n * 2 ^ nat s) d
                       else round_half_even n (d * 2 ^ nat (- s)))"
  have "int m = rne (real n / real d * 2 powi s)"
    unfolding m_def by (rule scaled_mantissa [OF assms(2)])
  then have m: "real m = of_int (rne (real n / real d * 2 powi s))"
    by (metis of_int_of_nat_eq)
  have fr: "fl_round n d e = (if m = 2 ^ 53 then (2 ^ 52, e - s + 1) else (m, e - s))"
    using assms(1) unfolding fl_round_def s_def [symmetric] Let_def m_def [symmetric] by simp
  have v: "val (fl_round n d e) = real m * 2 powi (e - s)"
  proof (cases "m = 2 ^ 53")
    case True
    then have "val (fl_round n d e) = real (2 ^ 52) * 2 powi (e - s + 1)"
      unfolding fr val_def by simp
    also have "\<dots> = real (2 ^ 52) * 2 * 2 powi (e - s)"
      unfolding two_powi_add [of "e - s" 1] by simp
    also have "\<dots> = real (2 ^ 53) * 2 powi (e - s)" by simp
    finally show ?thesis unfolding True .
  next
    case False
    then show ?thesis unfolding fr val_def by simp
  qed
  have "real n / real d * 2 powi e * 2 powi (52 - (expo n d + e)) =
        real n / real d * (2 powi e * 2 powi (52 - (expo n d + e)))" by simp
  also have "2 powi e * 2 powi (52 - (expo n d + e)) = (2::real) powi s"
    unfolding two_powi_add [symmetric] s_def by simp
  finally have a: "real n / real d * 2 powi e * 2 powi (52 - (expo n d + e)) =
        real n / real d * 2 powi s" .
  have b: "expo n d + e - 52 = e - s" by (simp add: s_def)
  show ?thesis
    unfolding fl_def v m a b ..
qed

lemma exponent_bounds:
  assumes "0 < n" "0 < d"
  shows "2 powi (expo n d + e) \<le> real n / real d * 2 powi e"
    and "real n / real d * 2 powi e < 2 powi (expo n d + e + 1)"
proof -
  have p: "(0::real) < 2 powi e" by simp
  show "2 powi (expo n d + e) \<le> real n / real d * 2 powi e"
    unfolding two_powi_add
    by (rule mult_right_mono [OF expo_bounds(1) [OF assms]]) simp
  have c: "expo n d + e + 1 = (expo n d + 1) + e" by simp
  show "real n / real d * 2 powi e < 2 powi (expo n d + e + 1)"
    unfolding c two_powi_add [of "expo n d + 1" e]
    by (rule mult_strict_right_mono [OF expo_bounds(2) [OF assms] p])
qed

lemma fl_lower:
  assumes "2 powi E \<le> x"
  shows "2 powi E \<le> fl E x"
proof -
  have "(2::real) powi E * 2 powi (52 - E) = 2 powi 52"
    unfolding two_powi_add [symmetric] by simp
  also have "\<dots> = of_int (2 ^ 52)" by simp
  finally have "of_int (2 ^ 52) = (2::real) powi E * 2 powi (52 - E)" by simp
  also have "\<dots> \<le> x * 2 powi (52 - E)"
    by (rule mult_right_mono [OF assms]) simp
  finally have "rne (of_int (2 ^ 52)) \<le> rne (x * 2 powi (52 - E))" by (rule rne_mono)
  then have "2 ^ 52 \<le> rne (x * 2 powi (52 - E))" by (simp only: rne_of_int)
  then have "(of_int (2 ^ 52) :: real) \<le> of_int (rne (x * 2 powi (52 - E)))"
    by (simp only: of_int_le_iff)
  then have "of_int (2 ^ 52) * 2 powi (E - 52) \<le> fl E x"
    unfolding fl_def by (rule mult_right_mono) simp
  moreover have "(of_int (2 ^ 52) :: real) * 2 powi (E - 52) = 2 powi 52 * 2 powi (E - 52)" by simp
  moreover have "(2::real) powi 52 * 2 powi (E - 52) = 2 powi E"
    unfolding two_powi_add [symmetric] by simp
  ultimately show ?thesis by (simp only:)
qed

lemma fl_upper:
  assumes "x \<le> 2 powi (E + 1)"
  shows "fl E x \<le> 2 powi (E + 1)"
proof -
  have "x * 2 powi (52 - E) \<le> 2 powi (E + 1) * 2 powi (52 - E)"
    by (rule mult_right_mono [OF assms]) simp
  also have "\<dots> = 2 powi 53"
    unfolding two_powi_add [symmetric] by simp
  also have "\<dots> = of_int (2 ^ 53)" by simp
  finally have "rne (x * 2 powi (52 - E)) \<le> rne (of_int (2 ^ 53))" by (rule rne_mono)
  then have "rne (x * 2 powi (52 - E)) \<le> 2 ^ 53" by (simp only: rne_of_int)
  then have "of_int (rne (x * 2 powi (52 - E))) \<le> (of_int (2 ^ 53) :: real)"
    by (simp only: of_int_le_iff)
  then have "fl E x \<le> of_int (2 ^ 53) * 2 powi (E - 52)"
    unfolding fl_def by (rule mult_right_mono) simp
  moreover have "(of_int (2 ^ 53) :: real) * 2 powi (E - 52) = 2 powi 53 * 2 powi (E - 52)" by simp
  moreover have "(2::real) powi 53 * 2 powi (E - 52) = 2 powi (E + 1)"
    unfolding two_powi_add [symmetric] by (simp add: add.commute)
  ultimately show ?thesis by (simp only:)
qed

lemma fl_mono:
  assumes x: "2 powi E \<le> x" "x < 2 powi (E + 1)"
    and y: "2 powi E' \<le> y" "y < 2 powi (E' + 1)"
    and le: "x \<le> y"
  shows "fl E x \<le> fl E' y"
proof -
  have "(2::real) powi E < 2 powi (E' + 1)"
    using x(1) le y(2) by linarith
  then have "E < E' + 1" by (rule two_powi_less_cancel)
  then consider "E = E'" | "E + 1 \<le> E'" by linarith
  then show ?thesis
  proof cases
    case 1
    have "x * 2 powi (52 - E) \<le> y * 2 powi (52 - E)"
      by (rule mult_right_mono [OF le]) simp
    then have "rne (x * 2 powi (52 - E)) \<le> rne (y * 2 powi (52 - E))" by (rule rne_mono)
    then have "(of_int (rne (x * 2 powi (52 - E))) :: real) \<le> of_int (rne (y * 2 powi (52 - E)))"
      by (simp only: of_int_le_iff)
    then show ?thesis unfolding fl_def 1 [symmetric] by (rule mult_right_mono) simp
  next
    case 2
    have "fl E x \<le> 2 powi (E + 1)" using x(2) by (intro fl_upper) simp
    also have "\<dots> \<le> 2 powi E'" using 2 by (rule two_powi_le)
    also have "\<dots> \<le> fl E' y" using y(1) by (rule fl_lower)
    finally show ?thesis .
  qed
qed

lemma val_fl_round_mono:
  assumes "0 < d" "0 < d'"
    and "real n / real d * 2 powi e \<le> real n' / real d' * 2 powi e'"
  shows "val (fl_round n d e) \<le> val (fl_round n' d' e')"
proof (cases "n = 0")
  case True
  then show ?thesis by (simp add: fl_round_def val_def Let_def)
next
  case False
  then have n: "0 < n" by simp
  have "0 < real n / real d * 2 powi e" using n assms(1) by simp
  then have "0 < real n' / real d' * 2 powi e'" using assms(3) by linarith
  then have n': "0 < n'" using assms(2) by (simp add: zero_less_mult_iff zero_less_divide_iff)
  show ?thesis
    unfolding val_fl_round [OF n assms(1)] val_fl_round [OF n' assms(2)]
    by (rule fl_mono [OF exponent_bounds(1) [OF n assms(1)] exponent_bounds(2) [OF n assms(1)]
          exponent_bounds(1) [OF n' assms(2)] exponent_bounds(2) [OF n' assms(2)] assms(3)])
qed


lemma py_int_floor: "int (py_int x) = \<lfloor>val x\<rfloor>"
proof (cases "0 \<le> snd x")
  case True
  have "val x = real (fst x * 2 ^ nat (snd x))"
    unfolding val_def power_int_nonneg_exp [OF True] by simp
  then have "\<lfloor>val x\<rfloor> = int (fst x * 2 ^ nat (snd x))"
    by (simp only: floor_of_nat)
  then show ?thesis using True by (simp only: py_int_def if_True)
next
  case False
  have "(2::real) powi (snd x) = inverse (2 powi (- snd x))"
    using power_int_minus [of "2::real" "- snd x"] by simp
  also have "(2::real) powi (- snd x) = 2 ^ nat (- snd x)"
    using False by (intro power_int_nonneg_exp) simp
  finally have "val x = real (fst x) / real (2 ^ nat (- snd x))"
    unfolding val_def by (simp add: field_simps)
  then have "\<lfloor>val x\<rfloor> = int (fst x div 2 ^ nat (- snd x))"
    by (simp only: floor_divide_of_nat_eq)
  then show ?thesis using False by (simp only: py_int_def if_False)
qed

lemma py_int_mono:
  assumes "val a \<le> val b"
  shows "py_int a \<le> py_int b"
proof -
  have "\<lfloor>val a\<rfloor> \<le> \<lfloor>val b\<rfloor>" using assms by (rule floor_mono)
  then show ?thesis unfolding py_int_floor [symmetric] by simp
qed

lemma fl_mul_mono:
  assumes "val a \<le> val b"
  shows "val (fl_mul a k) \<le> val (fl_mul b k)"
proof -
  have a: "real (fst a * k) / real 1 * 2 powi (snd a) = val a * real k"
    and b: "real (fst b * k) / real 1 * 2 powi (snd b) = val b * real k"
    unfolding val_def by simp_all
  have "val a * real k \<le> val b * real k"
    by (rule mult_right_mono [OF assms]) simp
  then have "real (fst a * k) / real 1 * 2 powi (snd a) \<le> real (fst b * k) / real 1 * 2 powi (snd b)"
    unfolding a b .
  then show ?thesis
    unfolding fl_mul_def by (intro val_fl_round_mono) simp_all
qed

lemma percent_mono:
  assumes "0 < t" "c \<le> c'"
  shows "percent c t \<le> percent c' t"
proof -
  have "real c / real t * 2 powi 0 \<le> real c' / real t * 2 powi 0"
    using assms by (simp add: divide_right_mono)
  then have "val (py_truediv c t) \<le> val (py_truediv c' t)"
    unfolding py_truediv_def by (intro val_fl_round_mono assms(1))
  then show ?thesis
    unfolding percent_def by (intro py_int_mono fl_mul_mono)
qed

lemma expo_self: "0 < t \<Longrightarrow> expo t t = 0"
  by (simp add: expo_def)

lemma round_half_even_multiple: "0 < d \<Longrightarrow> round_half_even (k * d) d = k"
  by (simp add: round_half_even_def)

lemma py_truediv_self:
  assumes "0 < t"
  shows "py_truediv t t = (2 ^ 52, - 52)"
proof -
  have "round_half_even (t * 2 ^ 52) t = 2 ^ 52"
    using round_half_even_multiple [OF assms, of "2 ^ 52"] by (simp only: mult.commute)
  then show ?thesis
    using assms by (simp add: py_truediv_def fl_round_def expo_self Let_def)
qed

lemma one_times_hundred: "py_int (fl_mul (2 ^ 52, - 52) 100) = 100"
  by (simp add: py_int_def fl_mul_def fl_round_def expo_def round_half_even_def
      compute_floorlog Let_def)

lemma percent_full: "0 < t \<Longrightarrow> percent t t = 100"
  by (simp only: percent_def py_truediv_self one_times_hundred)

lemma percent_le_100: "0 < t \<Longrightarrow> c \<le> t \<Longrightarrow> percent c t \<le> 100"
  using percent_mono [of t c t] percent_full [of t] by simp

lemma percent_zero: "percent 0 t = 0"
  by (simp add: percent_def py_truediv_def fl_mul_def fl_round_def py_int_def)

lemma rne_error: "\<bar>of_int (rne x) - x\<bar> \<le> 1 / 2"
proof -
  define q where "q = \<lfloor>x\<rfloor>"
  have b: "of_int q \<le> x" "x < of_int q + 1" unfolding q_def by linarith+
  have "rne x = (if x - of_int q < 1/2 then q else if 1/2 < x - of_int q then q + 1
                 else if even q then q else q + 1)"
    by (simp add: rne_def Let_def q_def)
  then consider "rne x = q" "x - of_int q \<le> 1/2" | "rne x = q + 1" "1/2 \<le> x - of_int q"
    by (cases "x - of_int q < 1/2"; cases "1/2 < x - of_int q"; cases "even q") simp_all
  then show ?thesis
  proof cases
    case 1
    then show ?thesis using b by simp
  next
    case 2
    then show ?thesis using b by simp
  qed
qed

lemma fl_error:
  "\<bar>fl E x - x\<bar> \<le> 2 powi (E - 53)"
proof -
  define u where "u = (2::real) powi (E - 52)"
  have u: "0 < u" by (simp add: u_def)
  have inv: "2 powi (52 - E) * u = 1"
    unfolding u_def two_powi_add [symmetric] by simp
  have "fl E x - x = (of_int (rne (x * 2 powi (52 - E))) - x * 2 powi (52 - E)) * u"
    using inv by (simp add: fl_def u_def [symmetric] algebra_simps)
  then have "\<bar>fl E x - x\<bar> = \<bar>of_int (rne (x * 2 powi (52 - E))) - x * 2 powi (52 - E)\<bar> * u"
    using u by (simp add: abs_mult)
  also have "\<dots> \<le> 1 / 2 * u"
    by (rule mult_right_mono [OF rne_error]) (use u in simp)
  also have "1 / 2 * u = 2 powi (E - 53)"
    using two_powi_add [of "E - 53" 1] by (simp add: u_def)
  finally show ?thesis .
qed

lemma fl_round_nearest:
  assumes "0 < n" "0 < d"
  shows "\<bar>val (fl_round n d e) - real n / real d * 2 powi e\<bar> \<le> 2 powi (expo n d + e - 53)"
  unfolding val_fl_round [OF assms] by (rule fl_error)

lemma fl_round_mantissa:
  assumes "0 < n" "0 < d"
  shows "2 ^ 52 \<le> fst (fl_round n d e) \<and> fst (fl_round n d e) < 2 ^ 53"
proof -
  define s where "s = 52 - expo n d"
  define m where "m = (if 0 \<le> s then round_half_even (n * 2 ^ nat s) d
                       else round_half_even n (d * 2 ^ nat (- s)))"
  have im: "int m = rne (real n / real d * 2 powi s)"
    unfolding m_def by (rule scaled_mantissa [OF assms(2)])
  have fr: "fl_round n d e = (if m = 2 ^ 53 then (2 ^ 52, e - s + 1) else (m, e - s))"
    using assms(1) unfolding fl_round_def s_def [symmetric] Let_def m_def [symmetric] by simp
  have lo: "of_int (2 ^ 52) \<le> real n / real d * 2 powi s"
  proof -
    have "(2::real) powi (expo n d) * 2 powi s = 2 powi 52"
      unfolding two_powi_add [symmetric] s_def by simp
    then have "of_int (2 ^ 52) = (2::real) powi (expo n d) * 2 powi s" by simp
    also have "\<dots> \<le> real n / real d * 2 powi s"
      by (rule mult_right_mono [OF expo_bounds(1) [OF assms]]) simp
    finally show ?thesis .
  qed
  have hi: "real n / real d * 2 powi s \<le> of_int (2 ^ 53)"
  proof -
    have "real n / real d * 2 powi s \<le> 2 powi (expo n d + 1) * 2 powi s"
      by (rule mult_right_mono [OF less_imp_le [OF expo_bounds(2) [OF assms]]]) simp
    also have "\<dots> = 2 powi 53"
      unfolding two_powi_add [symmetric] s_def by simp
    finally show ?thesis by simp
  qed
  have "rne (of_int (2 ^ 52)) \<le> rne (real n / real d * 2 powi s)"
    and "rne (real n / real d * 2 powi s) \<le> rne (of_int (2 ^ 53))"
    by (rule rne_mono [OF lo], rule rne_mono [OF hi])
  then have "2 ^ 52 \<le> int m" "int m \<le> 2 ^ 53"
    unfolding im [symmetric] rne_of_int by simp_all
  then have "int (2 ^ 52) \<le> int m" "int m \<le> int (2 ^ 53)"
    by simp_all
  then have "2 ^ 52 \<le> m" "m \<le> 2 ^ 53"
    by (simp_all only: of_nat_le_iff)
  then show ?thesis
    unfolding fr by (cases "m = 2 ^ 53") simp_all
qed


lemma fl_round_relative_error:
  assumes "0 < n" "0 < d"
  shows "\<bar>val (fl_round n d e) - real n / real d * 2 powi e\<bar>
         \<le> real n / real d * 2 powi e * 2 powi (- 53)"
proof -
  have "\<bar>val (fl_round n d e) - real n / real d * 2 powi e\<bar> \<le> 2 powi (expo n d + e - 53)"
    by (rule fl_round_nearest [OF assms])
  also have "\<dots> = 2 powi (expo n d + e) * 2 powi (- 53)"
    unfolding two_powi_add [symmetric] by simp
  also have "\<dots> \<le> real n / real d * 2 powi e * 2 powi (- 53)"
    by (rule mult_right_mono [OF exponent_bounds(1) [OF assms]]) simp
  finally show ?thesis .
qed

lemma times_hundred_error:
  assumes "0 < c" "c \<le> t"
  shows "\<bar>val (fl_mul (py_truediv c t) 100) - 100 * real c / real t\<bar> \<le> 300 * 2 powi (- 53)"
proof -
  define x where "x = real c / real t"
  define a where "a = val (py_truediv c t)"
  define y where "y = val (fl_mul (py_truediv c t) 100)"
  define u where "u = (2::real) powi (- 53)"
  have t: "0 < t" using assms by simp
  have u: "0 < u" "u \<le> 1"
    by (simp_all add: u_def power_int_minus_divide)
  have x: "0 < x" "x \<le> 1" using assms t by (simp_all add: x_def)
  have "\<bar>a - x * 2 powi 0\<bar> \<le> x * 2 powi 0 * u"
    unfolding a_def x_def u_def py_truediv_def by (rule fl_round_relative_error [OF assms(1) t])
  then have ax: "\<bar>a - x\<bar> \<le> x * u" by simp
  then have a_pos: "0 < a"
  proof -
    have "2 powi (expo c t + 0) \<le> fl (expo c t + 0) (real c / real t * 2 powi 0)"
      by (rule fl_lower [OF exponent_bounds(1) [OF assms(1) t]])
    then have "2 powi (expo c t + 0) \<le> a"
      unfolding a_def py_truediv_def val_fl_round [OF assms(1) t] .
    moreover have "(0::real) < 2 powi (expo c t + 0)" by simp
    ultimately show ?thesis by linarith
  qed
  then have m: "0 < fst (py_truediv c t) * 100"
    by (simp add: a_def val_def zero_less_mult_iff)
  have ya: "real (fst (py_truediv c t) * 100) / real 1 * 2 powi (snd (py_truediv c t)) = 100 * a"
    by (simp add: a_def val_def)
  have "\<bar>y - 100 * a\<bar> \<le> 100 * a * u"
    unfolding y_def fl_mul_def ya [symmetric] u_def
    by (rule fl_round_relative_error [OF m]) simp
  moreover have "a \<le> x * (1 + u)" using ax by (simp add: algebra_simps abs_le_iff)
  moreover have "100 * a * u \<le> 100 * (x * (1 + u)) * u"
    by (intro mult_right_mono mult_left_mono) (use u \<open>a \<le> x * (1 + u)\<close> in simp_all)
  ultimately have "\<bar>y - 100 * a\<bar> \<le> 100 * (x * (1 + u)) * u"
    by linarith
  moreover have "\<bar>100 * a - 100 * x\<bar> \<le> 100 * (x * u)"
    using ax by (simp add: abs_le_iff)
  ultimately have "\<bar>y - 100 * x\<bar> \<le> 100 * (x * (1 + u)) * u + 100 * (x * u)"
    by linarith
  also have "\<dots> = x * (100 * u * (2 + u))" by (simp add: algebra_simps)
  also have "\<dots> \<le> 1 * (100 * u * (2 + u))"
    by (rule mult_right_mono [OF x(2)]) (use u in simp)
  also have "\<dots> \<le> 300 * u"
    using u by (simp add: algebra_simps)
  finally show ?thesis
    by (simp add: y_def x_def u_def)
qed


lemma percent_bounds:
  assumes "0 < t" "c \<le> t" "t \<le> 2 ^ 44"
  shows "percent c t \<le> 100 * c div t" and "100 * c div t \<le> percent c t + 1"
proof -
  have "percent c t \<le> 100 * c div t \<and> 100 * c div t \<le> percent c t + 1"
  proof (cases "c = 0")
    case True
    then show ?thesis by (simp add: percent_zero)
  next
    case False
    then have c: "0 < c" by simp
    define y where "y = val (fl_mul (py_truediv c t) 100)"
    define X where "X = 100 * real c / real t"
    define q where "q = 100 * c div t"
    have p: "int (percent c t) = \<lfloor>y\<rfloor>"
      unfolding percent_def y_def by (rule py_int_floor)
    define dl where "dl = 300 * (2::real) powi (- 53)"
    define kp where "kp = 1 / (2::real) ^ 44"
    define r where "r = 1 / real t"
    have err: "\<bar>y - X\<bar> \<le> dl"
      unfolding y_def X_def dl_def by (rule times_hundred_error [OF c assms(2)])
    have small: "dl < kp" "0 < dl" "kp < 1"
      by (simp_all add: dl_def kp_def power_int_minus_divide)
    have "real t \<le> 2 ^ 44" using assms(3)
      by (metis of_nat_le_iff of_nat_numeral of_nat_power)
    then have t44: "kp \<le> r"
      unfolding kp_def r_def using assms(1) by (intro divide_left_mono) simp_all
    have "real (100 * c) = real (100 * c div t) * real t + real (100 * c mod t)"
      by (metis div_mult_mod_eq of_nat_add of_nat_mult)
    then have Xq: "X = real q + real (100 * c mod t) / real t"
      using assms(1) by (simp add: X_def q_def field_simps)
    have "100 * c mod t < t" using assms(1) by simp
    then have "100 * c mod t + 1 \<le> t" by simp
    then have "real (100 * c mod t) + 1 \<le> real t"
      by (metis of_nat_le_iff of_nat_add of_nat_1)
    then have fr: "real (100 * c mod t) / real t \<le> 1 - r"
      unfolding r_def using assms(1) by (simp add: field_simps)
    have lo: "real q \<le> X" using Xq assms(1) by simp
    have hi: "X \<le> real q + 1 - r" using Xq fr by linarith
    have y1: "y \<le> X + dl" and y2: "X - dl \<le> y"
      using err by (simp_all add: abs_le_iff)
    have "y < real q + 1" using y1 hi small t44 by linarith
    then have "y < of_int (int q + 1)" by simp
    then have "\<lfloor>y\<rfloor> < int q + 1" by (simp only: floor_less_iff)
    then have up: "percent c t \<le> q" using p by linarith
    have "real q - 1 < y" using y2 lo small by linarith
    then have "of_int (int q - 1) \<le> y" by simp
    then have "int q - 1 \<le> \<lfloor>y\<rfloor>" by (simp only: le_floor_iff)
    then have "q \<le> percent c t + 1" using p by linarith
    with up show ?thesis unfolding q_def by simp
  qed
  then show "percent c t \<le> 100 * c div t" and "100 * c div t \<le> percent c t + 1"
    by simp_all
qed

section \<open>Properties of the loader and the enumerator\<close>

lemma collect_positions_append:
  "collect_positions lib n b moves acc =
     acc @ map (\<lambda>k. \<lparr>board = foldl (push lib) b (take k moves),
                     move_number = fullmove_number lib (foldl (push lib) b (take k moves)),
                     turn = (if white_to_move lib (foldl (push lib) b (take k moves))
                             then ''Blancs'' else ''Noirs''),
                     game_number = n\<rparr>) [0..<length moves]"
proof (induction moves arbitrary: b acc)
  case Nil
  then show ?case by simp
next
  case (Cons mv moves)
  show ?case
    by (simp add: Cons.IH upt_conv_Cons map_Suc_upt [symmetric] del: upt_Suc)
qed

lemma collect_positions_tasks:
  "collect_positions lib n (start_board game) (mainline_moves game) acc =
     acc @ map (position_task lib n game) [0..<length (mainline_moves game)]"
  by (simp add: collect_positions_append position_task_def board_before_def)

lemma read_games_append:
  "read_games lib games c all_games all_positions =
     (all_games @ map (\<lambda>i. make_game_info (c + i + 1) (headers (games ! i))) [0..<length games],
      all_positions @
      concat (map (\<lambda>i. map (position_task lib (c + i + 1) (games ! i))
                           [0..<length (mainline_moves (games ! i))]) [0..<length games]))"
proof (induction games arbitrary: c all_games all_positions)
  case Nil
  then show ?case by simp
next
  case (Cons game rest)
  show ?case
    by (simp add: Cons.IH collect_positions_tasks upt_conv_Cons map_Suc_upt [symmetric]
        comp_def del: upt_Suc)
qed

lemma loaded_games:
  "fst (read_games lib games 0 [] []) =
     map (\<lambda>i. make_game_info (i + 1) (headers (games ! i))) [0..<length games]"
  by (simp add: read_games_append)

lemma loaded_positions:
  "snd (read_games lib games 0 [] []) =
     concat (map (\<lambda>i. map (position_task lib (i + 1) (games ! i))
                          [0..<length (mainline_moves (games ! i))]) [0..<length games])"
  by (simp add: read_games_append)

text \<open>
  C6. The list \<^verbatim>\<open>all_positions\<close> built by the two nested loops is, game after game
  in corpus order and ply after ply within a game, exactly one task per mainline ply:
  the task of ply \<open>k\<close> of the game at index \<open>i\<close> holds the board reached from the
  game's starting board by its first \<open>k\<close> moves (the board before move \<open>k\<close> is
  applied), that board's full-move number, the side to move on it, and the game
  identifier \<open>i + 1\<close>. The full-move number is python-chess's, which starts at 1.
\<close>

theorem enumerator_one_task_per_ply:
  "snd (read_games lib games 0 [] []) =
     concat (map (\<lambda>i. map (position_task lib (i + 1) (games ! i))
                          [0..<length (mainline_moves (games ! i))]) [0..<length games])
   \<and> length (snd (read_games lib games 0 [] [])) = sum_list (map (length \<circ> mainline_moves) games)"
proof -
  have "map (\<lambda>i. length (mainline_moves (games ! i))) [0..<length games]
        = map (length \<circ> mainline_moves) (map ((!) games) [0..<length games])"
    by (simp only: map_map comp_def)
  also have "\<dots> = map (length \<circ> mainline_moves) games"
    by (simp only: map_nth)
  finally have "length (snd (read_games lib games 0 [] []))
        = sum_list (map (length \<circ> mainline_moves) games)"
    by (simp add: loaded_positions length_concat comp_def)
  then show ?thesis
    by (simp only: loaded_positions simp_thms)
qed


lemma pgn_headers_fields:
  "pgn_headers tags ''White'' = Some (case tags ''White'' of None \<Rightarrow> ''?'' | Some v \<Rightarrow> v)"
  "pgn_headers tags ''Black'' = Some (case tags ''Black'' of None \<Rightarrow> ''?'' | Some v \<Rightarrow> v)"
  "pgn_headers tags ''Result'' = Some (case tags ''Result'' of None \<Rightarrow> ''*'' | Some v \<Rightarrow> v)"
  "pgn_headers tags ''Date'' = Some (case tags ''Date'' of None \<Rightarrow> ''????.??.??'' | Some v \<Rightarrow> v)"
  "pgn_headers tags ''Event'' = Some (case tags ''Event'' of None \<Rightarrow> ''?'' | Some v \<Rightarrow> v)"
  by (simp_all add: pgn_headers_def seven_tag_roster_def map_add_def split: option.splits)





section \<open>Properties of the analysis of one position\<close>

lemma py_float_in_range:
  assumes "n < 2 ^ 1023"
  shows "py_float n = Inr (nearest_double n)"
proof (cases "n = 0")
  case True
  then show ?thesis by (simp add: py_float_def nearest_double_def fl_round_def)
next
  case False
  then have n: "0 < n" by simp
  have "real n < real (2 ^ 1023)"
    using assms by (simp only: of_nat_less_iff)
  then have lt: "real n / real 1 < 2 powi 1023" by simp
  have "2 powi (expo n 1) \<le> real n / real 1"
    by (rule expo_bounds(1) [OF n]) simp
  also note lt
  finally have "expo n 1 < 1023" by (rule two_powi_less_cancel)
  then have "snd (fl_round n 1 0) \<le> 971"
    using False by (simp add: fl_round_def Let_def)
  then show ?thesis by (simp add: py_float_def nearest_double_def)
qed

lemma py_float_overflow:
  assumes "2 ^ 1024 \<le> n"
  shows "py_float n = Inl OverflowError"
proof -
  have "(0::nat) < 2 ^ 1024" by (rule zero_less_power) simp
  then have n: "0 < n" using assms by (rule less_le_trans)
  have "real (2 ^ 1024) \<le> real n"
    using assms by (simp only: of_nat_le_iff)
  then have "(2::real) powi 1024 \<le> real n / real 1" by simp
  also have "\<dots> < 2 powi (expo n 1 + 1)"
    by (rule expo_bounds(2) [OF n]) simp
  finally have "1024 < expo n 1 + 1" by (rule two_powi_less_cancel)
  then have "971 < snd (fl_round n 1 0)"
    using n by (simp add: fl_round_def Let_def)
  then show ?thesis by (simp add: py_float_def nearest_double_def)
qed

lemma detect_two_candidates:
  assumes "2 \<le> length info"
    and "score (info ! 0) = Some score_best" and "score (info ! 1) = Some score_second"
    and "score_mate_10000 score_best = Some eval_best"
    and "score_mate_10000 score_second = Some eval_second"
    and "pv (info ! 0) = Some (mv_best # rest_best)"
    and "san lib (board position_data) mv_best = Inr san_best"
    and "pv (info ! 1) = Some (mv_second # rest_second)"
    and "san lib (board position_data) mv_second = Inr san_second"
    and "\<bar>eval_best - eval_second\<bar> < 2 ^ 1023"
  shows "detect lib position_data info =
         Inr (if 100 < \<bar>eval_best - eval_second\<bar> \<and> - 50 < eval_second \<and> eval_second < 50
              then Some \<lparr>fen = board_fen lib (board position_data),
                         cm_move_number = move_number position_data,
                         cm_turn = turn position_data,
                         best_move = san_best,
                         best_move_eval = score_str score_best,
                         second_best_move = san_second,
                         second_best_move_eval = score_str score_second,
                         difference =
                           fl_div (nearest_double (nat \<bar>eval_best - eval_second\<bar>)) 100\<rparr>
              else None)"
proof -
  have "nat \<bar>eval_best - eval_second\<bar> < 2 ^ 1023"
    using assms(10) by (simp add: nat_less_iff)
  then have f: "py_float (nat \<bar>eval_best - eval_second\<bar>)
                = Inr (nearest_double (nat \<bar>eval_best - eval_second\<bar>))"
    by (rule py_float_in_range)
  show ?thesis
    using assms(1-9)
    by (simp add: detect_def and_then_def get_score_def first_pv_move_def
        EVAL_DIFFERENCE_THRESHOLD_def Let_def f)
qed

lemma double_of_190_hundredths: "fl_div (nearest_double 190) 100 = (8556839292003942, - 52)"
  by (simp add: fl_div_def nearest_double_def fl_round_def expo_def round_half_even_def
      compute_floorlog Let_def)

lemma py_float_190: "py_float 190 = Inr (nearest_double 190)"
  by (rule py_float_in_range) simp

lemma sharp_position:
  "analyze_position plain_lib (two_lines 200 10) \<lparr>board = b, move_number = n, turn = t, game_number = g\<rparr>
     = Inr (Some \<lparr>fen = ''fen'', cm_move_number = n, cm_turn = t, best_move = ''e4'',
                  best_move_eval = ''a'', second_best_move = ''d4'', second_best_move_eval = ''b'',
                  difference = (8556839292003942, - 52)\<rparr>)"
  by (simp add: analyze_position_def try_body_def detect_def and_then_def get_score_def
      first_pv_move_def EVAL_DIFFERENCE_THRESHOLD_def two_lines_def plain_lib_def
      py_float_190 double_of_190_hundredths)

lemma quit_fails_once_result:
  "analyze_position plain_lib quit_fails_once first_position = Inr None"
  by (simp add: analyze_position_def try_body_def detect_def and_then_def get_score_def
      first_pv_move_def EVAL_DIFFERENCE_THRESHOLD_def quit_fails_once_def two_lines_def
      plain_lib_def py_float_190)

text \<open>
  C1 holds under conditions that its text does not name. Take a call in which the
  engine starts, the probe returns something, the second \<^verbatim>\<open>analyse\<close> returns at
  least two entries, the first two entries each carry a score that resolves to an
  integer (\<open>eval_best\<close>, \<open>eval_second\<close>, as \<^verbatim>\<open>score(mate_score=10000)\<close> gives them) and
  a principal variation whose first move python-chess can write in algebraic notation,
  the gap \<open>\<bar>eval_best - eval_second\<bar>\<close> is below \<open>2 ^ 1023\<close>, and \<^verbatim>\<open>engine.quit()\<close>
  does not raise inside the \<^verbatim>\<open>try\<close> block. Then \<^verbatim>\<open>analyze_position\<close> returns a
  record exactly when the gap is above 100 and \<open>eval_second\<close> lies strictly between -50
  and 50; the record's \<^verbatim>\<open>difference\<close> is the double \<^verbatim>\<open>gap / 100.0\<close>; in every
  other case the function returns \<^verbatim>\<open>None\<close>.
\<close>

theorem analyze_position_critical_iff:
  assumes "popen_uci run = None"
    and "probe run = Inr position_before" and "position_before \<noteq> []"
    and "analysis run = Inr info" and "quit_in_try run = None"
    and "2 \<le> length info"
    and "score (info ! 0) = Some score_best" and "score (info ! 1) = Some score_second"
    and "score_mate_10000 score_best = Some eval_best"
    and "score_mate_10000 score_second = Some eval_second"
    and "pv (info ! 0) = Some (mv_best # rest_best)"
    and "san lib (board position_data) mv_best = Inr san_best"
    and "pv (info ! 1) = Some (mv_second # rest_second)"
    and "san lib (board position_data) mv_second = Inr san_second"
    and "\<bar>eval_best - eval_second\<bar> < 2 ^ 1023"
  shows "analyze_position lib run position_data =
         Inr (if 100 < \<bar>eval_best - eval_second\<bar> \<and> - 50 < eval_second \<and> eval_second < 50
              then Some \<lparr>fen = board_fen lib (board position_data),
                         cm_move_number = move_number position_data,
                         cm_turn = turn position_data,
                         best_move = san_best,
                         best_move_eval = score_str score_best,
                         second_best_move = san_second,
                         second_best_move_eval = score_str score_second,
                         difference =
                           fl_div (nearest_double (nat \<bar>eval_best - eval_second\<bar>)) 100\<rparr>
              else None)"
proof -
  note d = detect_two_candidates [OF assms(6-15)]
  show ?thesis
    using assms(1-5) by (simp add: analyze_position_def try_body_def d)
qed

text \<open>
  The three examples of the specification: evaluations 200 and 10 give a critical
  moment of 1.9 pawns (the double \<open>8556839292003942 * 2 ^ - 52\<close>); 120 and 30 give
  nothing (gap 90); 300 and 60 give nothing (the second move is outside the band).
\<close>

theorem analyze_position_critical_iff_witness:
  "analyze_position plain_lib (two_lines 200 10) first_position
     = Inr (Some \<lparr>fen = ''fen'', cm_move_number = 1, cm_turn = ''Blancs'', best_move = ''e4'',
                  best_move_eval = ''a'', second_best_move = ''d4'', second_best_move_eval = ''b'',
                  difference = (8556839292003942, - 52)\<rparr>)
   \<and> analyze_position plain_lib (two_lines 120 30) first_position = Inr None
   \<and> analyze_position plain_lib (two_lines 300 60) first_position = Inr None"
proof -
  have a: "analyze_position plain_lib (two_lines x y) first_position =
         Inr (if 100 < \<bar>x - y\<bar> \<and> - 50 < y \<and> y < 50
              then Some \<lparr>fen = ''fen'', cm_move_number = 1, cm_turn = ''Blancs'',
                         best_move = ''e4'', best_move_eval = ''a'',
                         second_best_move = ''d4'', second_best_move_eval = ''b'',
                         difference = fl_div (nearest_double (nat \<bar>x - y\<bar>)) 100\<rparr>
              else None)" if "\<bar>x - y\<bar> < 2 ^ 1023" for x y
    using that analyze_position_critical_iff
      [where run = "two_lines x y" and lib = plain_lib and eval_best = x and eval_second = y
         and score_best = "\<lparr>score_mate_10000 = Some x, score_str = ''a''\<rparr>"
         and score_second = "\<lparr>score_mate_10000 = Some y, score_str = ''b''\<rparr>"
         and mv_best = "''e4''" and rest_best = "[]" and san_best = "''e4''"
         and mv_second = "''d4''" and rest_second = "[]" and san_second = "''d4''"
         and position_data = first_position]
    by (simp add: two_lines_def plain_lib_def first_position_def)
  show ?thesis
    using a [of 200 10] a [of 120 30] a [of 300 60]
    by (simp add: double_of_190_hundredths)
qed

text \<open>
  C1 as it is written fails on the code when the engine's shutdown at line 121 raises:
  the two candidates are there, their scores 200 and 10 resolve and qualify, the record
  is built, and the exception of \<^verbatim>\<open>engine.quit()\<close> sends control to the handler,
  which returns \<^verbatim>\<open>None\<close>. With the same analysis and a shutdown that succeeds the
  record is returned.
\<close>

theorem analyze_position_drops_record:
  "analysis quit_fails_once = analysis (two_lines 200 10)
   \<and> analyze_position plain_lib (two_lines 200 10) first_position
     = Inr (Some \<lparr>fen = ''fen'', cm_move_number = 1, cm_turn = ''Blancs'', best_move = ''e4'',
                  best_move_eval = ''a'', second_best_move = ''d4'', second_best_move_eval = ''b'',
                  difference = (8556839292003942, - 52)\<rparr>)
   \<and> analyze_position plain_lib quit_fails_once first_position = Inr None"
proof -
  have "analysis quit_fails_once = analysis (two_lines 200 10)"
    by (simp add: quit_fails_once_def)
  moreover have "analyze_position plain_lib (two_lines 200 10) first_position
     = Inr (Some \<lparr>fen = ''fen'', cm_move_number = 1, cm_turn = ''Blancs'', best_move = ''e4'',
                  best_move_eval = ''a'', second_best_move = ''d4'', second_best_move_eval = ''b'',
                  difference = (8556839292003942, - 52)\<rparr>)"
    unfolding first_position_def by (rule sharp_position)
  ultimately show ?thesis
    by (simp only: quit_fails_once_result simp_thms)
qed

lemma analyze_position_returns:
  assumes "quit_in_except run = None"
  shows "\<exists>r. analyze_position lib run position_data = Inr r"
  using assms by (simp add: analyze_position_def split: sum.splits prod.splits)

lemma analyze_position_none_cases:
  assumes "quit_in_except run = None"
  shows "popen_uci run \<noteq> None \<Longrightarrow> analyze_position lib run position_data = Inr None"
    and "probe run = Inl e \<Longrightarrow> analyze_position lib run position_data = Inr None"
    and "probe run = Inr [] \<Longrightarrow> analyze_position lib run position_data = Inr None"
    and "analysis run = Inl e \<Longrightarrow> analyze_position lib run position_data = Inr None"
    and "analysis run = Inr info \<Longrightarrow> length info < 2 \<Longrightarrow>
         analyze_position lib run position_data = Inr None"
  using assms
  by (auto simp add: analyze_position_def try_body_def detect_def
      split: sum.splits prod.splits option.splits)

lemma analyze_position_unresolved_score:
  assumes "quit_in_except run = None"
    and "analysis run = Inr info" and "2 \<le> length info"
    and "score (info ! 0) = Some score_best" and "score (info ! 1) = Some score_second"
    and "score_mate_10000 score_best = None \<or> score_mate_10000 score_second = None"
  shows "analyze_position lib run position_data = Inr None"
proof -
  have "detect lib position_data info = Inr None"
    using assms(3-6)
    by (auto simp add: detect_def and_then_def get_score_def split: option.splits)
  then show ?thesis
    using assms(1,2)
    by (auto simp add: analyze_position_def try_body_def split: sum.splits prod.splits option.splits)
qed

text \<open>
  A gap too large for a double: \<^verbatim>\<open>difference / 100.0\<close> raises inside the \<^verbatim>\<open>try\<close>
  block and the handler returns \<^verbatim>\<open>None\<close>.
\<close>

lemma analyze_position_overflow:
  "analyze_position plain_lib (two_lines (2 ^ 1100) 10) first_position = Inr None"
proof -
  have "(2::nat) ^ 1024 \<le> nat \<bar>2 ^ 1100 - 10\<bar>" by simp
  then have "py_float (nat \<bar>2 ^ 1100 - 10\<bar>) = Inl OverflowError"
    by (rule py_float_overflow)
  then show ?thesis
    by (simp add: analyze_position_def try_body_def detect_def and_then_def get_score_def
        first_pv_move_def EVAL_DIFFERENCE_THRESHOLD_def two_lines_def plain_lib_def)
qed

lemma analyze_position_raises_iff:
  "analyze_position lib run position_data = Inl e \<longleftrightarrow>
     (\<exists>e0. try_body lib run position_data = Inl (True, e0)) \<and> quit_in_except run = Some e"
  by (auto simp add: analyze_position_def split: sum.splits prod.splits option.splits)

text \<open>
  C2 fails on the code when the engine's shutdown fails inside the handler: line 130
  calls \<^verbatim>\<open>engine.quit()\<close> outside any \<^verbatim>\<open>try\<close>, so what it raises leaves
  \<^verbatim>\<open>analyze_position\<close>. Here the engine process dies during the probe. (When the
  shutdown in the handler succeeds, the lemmas above give \<^verbatim>\<open>None\<close> for every
  failure that C2 lists.)
\<close>

theorem analyze_position_raises_from_handler:
  "analyze_position lib dead_engine position_data = Inl (Raised ''engine event loop dead'')"
  by (simp add: analyze_position_def try_body_def dead_engine_def)

section \<open>Properties of the registry\<close>

lemma completion_loop_keys:
  "fst ` set (fst (completion_loop lib runs all_positions events completed all_games))
     \<subseteq> {''current_move'', ''progress''}"
proof (induction events arbitrary: completed all_games)
  case Nil
  then show ?case by simp
next
  case (Cons ev events)
  show ?case
  proof (cases ev)
    case (Inl e)
    then show ?thesis by simp
  next
    case (Inr i)
    show ?thesis
    proof (cases "length all_positions = 0")
      case True
      then show ?thesis using Inr by simp
    next
      case False
      then show ?thesis using Inr Cons.IH
        by (simp add: Let_def)
    qed
  qed
qed

lemma job_writes_keys: "fst ` set (job_writes lib corpus runs events) \<subseteq> written_keys"
proof (cases corpus)
  case (Inl e)
  then show ?thesis by (simp add: job_writes_def written_keys_def)
next
  case (Inr games)
  have "fst ` set (fst (completion_loop lib runs ap events 0 ag)) \<subseteq> written_keys" for ap ag
    using completion_loop_keys [of lib runs ap events 0 ag] by (auto simp: written_keys_def)
  then show ?thesis using Inr
    by (auto simp add: job_writes_def Let_def written_keys_def split: sum.splits)
qed

lemma apply_write_at:
  "apply_write entry (k, v) key = (if key = k then Some v else entry key)"
  by (simp add: apply_write_def)

lemma foldl_apply_write_other:
  "key \<notin> fst ` set ws \<Longrightarrow> foldl apply_write entry ws key = entry key"
  by (induction ws arbitrary: entry) (auto simp: apply_write_def)

lemma entry_states_other:
  "key \<notin> fst ` set ws \<Longrightarrow> s \<in> set (entry_states entry ws) \<Longrightarrow> s key = entry key"
  by (induction ws arbitrary: entry) (auto simp: apply_write_def)

lemma entry_states_dom:
  "fst ` set ws \<subseteq> dom entry \<Longrightarrow> s \<in> set (entry_states entry ws) \<Longrightarrow> dom s = dom entry"
proof (induction ws arbitrary: entry)
  case Nil
  then show ?case by simp
next
  case (Cons w ws)
  have d: "dom (apply_write entry w) = dom entry"
    using Cons.prems(1) by (auto simp: apply_write_def)
  show ?case
  proof (cases "s = entry")
    case True
    then show ?thesis by simp
  next
    case False
    then have "s \<in> set (entry_states (apply_write entry w) ws)" using Cons.prems(2) by simp
    moreover have "fst ` set ws \<subseteq> dom (apply_write entry w)" using Cons.prems(1) d by simp
    ultimately show ?thesis using Cons.IH d by metis
  qed
qed

lemma init_entry_fields:
  "init_entry reg aid ''status'' = Some (PyStr ''starting'')"
  "init_entry reg aid ''progress'' = Some (PyInt 0)"
  "init_entry reg aid ''total_moves'' = Some (PyInt 0)"
  "init_entry reg aid ''current_move'' = Some (PyInt 0)"
  "init_entry reg aid ''results'' = Some PyNone"
  "init_entry reg aid ''error'' = Some PyNone"
  by (simp_all add: init_entry_def starting_fields_def map_add_def split: option.splits)

lemma init_entry_other:
  "reg aid = Some entry \<Longrightarrow> key \<notin> written_keys \<Longrightarrow> init_entry reg aid key = entry key"
  by (simp add: init_entry_def starting_fields_def map_add_def written_keys_def)

lemma filename_not_written: "''filename'' \<notin> written_keys"
  by (simp add: written_keys_def)

lemma upload_entry_dom:
  "dom (upload_entry name) = insert ''filename'' written_keys"
  by (auto simp add: upload_entry_def written_keys_def split: if_splits)

lemma init_entry_dom:
  "reg aid = Some entry \<Longrightarrow> dom (init_entry reg aid) = dom entry \<union> written_keys"
  by (auto simp add: init_entry_def starting_fields_def written_keys_def split: if_splits)

lemma entry_states_head: "entry \<in> set (entry_states entry ws)"
  by (cases ws) simp_all

text \<open>
  C10. When a run starts for an id whose entry exists, the initialisation keeps the
  entry's \<^verbatim>\<open>filename\<close> and sets \<^verbatim>\<open>status\<close>, \<^verbatim>\<open>progress\<close>,
  \<^verbatim>\<open>total_moves\<close>, \<^verbatim>\<open>current_move\<close>, \<^verbatim>\<open>results\<close> and \<^verbatim>\<open>error\<close> to
  their initial values; the entry of every other id is the same after the
  initialisation, and still the same when the run has ended, whatever the corpus and the
  pool do; the \<^verbatim>\<open>filename\<close> is still the same at the end of the run.
\<close>

theorem init_progress_keeps_filename:
  assumes "analysis_progress analysis_id = Some entry"
  shows "init_progress analysis_progress analysis_id analysis_id
           = Some (init_entry analysis_progress analysis_id)
         \<and> init_entry analysis_progress analysis_id ''filename'' = entry ''filename''
         \<and> init_entry analysis_progress analysis_id ''status'' = Some (PyStr ''starting'')
         \<and> init_entry analysis_progress analysis_id ''progress'' = Some (PyInt 0)
         \<and> init_entry analysis_progress analysis_id ''total_moves'' = Some (PyInt 0)
         \<and> init_entry analysis_progress analysis_id ''current_move'' = Some (PyInt 0)
         \<and> init_entry analysis_progress analysis_id ''results'' = Some PyNone
         \<and> init_entry analysis_progress analysis_id ''error'' = Some PyNone
         \<and> (\<forall>other. other \<noteq> analysis_id \<longrightarrow>
               init_progress analysis_progress analysis_id other = analysis_progress other
               \<and> analyze_pgn_async lib analysis_progress analysis_id corpus runs events other
                   = analysis_progress other)
         \<and> (\<exists>final. analyze_pgn_async lib analysis_progress analysis_id corpus runs events
                        analysis_id = Some final
                      \<and> final ''filename'' = entry ''filename'')"
proof -
  have "''filename'' \<notin> fst ` set (job_writes lib corpus runs events)"
    using job_writes_keys [of lib corpus runs events] filename_not_written by blast
  then have "foldl apply_write (init_entry analysis_progress analysis_id)
               (job_writes lib corpus runs events) ''filename''
             = init_entry analysis_progress analysis_id ''filename''"
    by (rule foldl_apply_write_other)
  moreover have "init_entry analysis_progress analysis_id ''filename'' = entry ''filename''"
    using init_entry_other [of analysis_progress analysis_id, OF assms filename_not_written] .
  ultimately show ?thesis
    by (simp add: init_entry_fields init_progress_def analyze_pgn_async_def)
qed

theorem init_progress_keeps_filename_witness:
  "two_jobs ''a'' = Some ((upload_entry ''first.pgn'')(''status'' \<mapsto> PyStr ''completed'',
                                                    ''progress'' \<mapsto> PyInt 100))
   \<and> init_entry two_jobs ''a'' ''filename'' = Some (PyStr ''first.pgn'')
   \<and> init_entry two_jobs ''a'' ''status'' = Some (PyStr ''starting'')
   \<and> init_entry two_jobs ''a'' ''progress'' = Some (PyInt 0)
   \<and> init_progress two_jobs ''a'' ''b'' = Some (upload_entry ''second.pgn'')
   \<and> analyze_pgn_async plain_lib two_jobs ''a'' (Inr [bare_game]) dead_engines [] ''b''
       = Some (upload_entry ''second.pgn'')"
proof -
  have a: "two_jobs ''a'' = Some ((upload_entry ''first.pgn'')(''status'' \<mapsto> PyStr ''completed'',
                                            ''progress'' \<mapsto> PyInt 100))"
    and b: "two_jobs ''b'' = Some (upload_entry ''second.pgn'')"
    by (simp_all add: two_jobs_def)
  have "''b'' \<noteq> ''a''" by simp
  then show ?thesis
    using init_progress_keeps_filename
        [where analysis_progress = two_jobs and analysis_id = "''a''" and lib = plain_lib
           and corpus = "Inr [bare_game]" and runs = dead_engines and events = "[]", OF a] b
    by (simp add: a upload_entry_def)
qed

text \<open>
  C8, as the source has it. While a job submitted through \<^verbatim>\<open>upload_file\<close> runs, a
  poll returns status 200 and the whole entry as it is at that moment: the seven keys
  \<^verbatim>\<open>filename\<close>, \<^verbatim>\<open>status\<close>, \<^verbatim>\<open>progress\<close>, \<^verbatim>\<open>total_moves\<close>,
  \<^verbatim>\<open>current_move\<close>, \<^verbatim>\<open>results\<close> and \<^verbatim>\<open>error\<close>, the last two holding
  \<^verbatim>\<open>None\<close> until they are set. The poll is a function of the registry and changes
  nothing. For an id that is not in the registry it returns status 404 and an object
  with the single key \<^verbatim>\<open>error\<close>.
\<close>

theorem get_progress_whole_entry:
  assumes "analysis_progress analysis_id = Some (upload_entry name)"
    and "s \<in> set (entry_states (init_entry analysis_progress analysis_id)
                     (job_writes lib corpus runs events))"
  shows "get_progress (analysis_progress(analysis_id \<mapsto> s)) analysis_id = (200, s)
       \<and> dom s = {''filename'', ''status'', ''progress'', ''total_moves'', ''current_move'',
                   ''results'', ''error''}
       \<and> s ''filename'' = Some (PyStr name)
       \<and> (\<forall>other. analysis_progress other = None \<longrightarrow>
             get_progress analysis_progress other
               = (404, [''error'' \<mapsto> PyStr not_found_message]))"
proof -
  have d0: "dom (init_entry analysis_progress analysis_id) = insert ''filename'' written_keys"
    using init_entry_dom [of analysis_progress analysis_id, OF assms(1)] upload_entry_dom [of name] by auto
  have "fst ` set (job_writes lib corpus runs events)
          \<subseteq> dom (init_entry analysis_progress analysis_id)"
    using job_writes_keys [of lib corpus runs events] d0 by auto
  then have "dom s = insert ''filename'' written_keys"
    using entry_states_dom assms(2) d0 by metis
  then have d: "dom s = {''filename'', ''status'', ''progress'', ''total_moves'', ''current_move'',
                   ''results'', ''error''}"
    by (simp add: written_keys_def)
  have "''filename'' \<notin> fst ` set (job_writes lib corpus runs events)"
    using job_writes_keys [of lib corpus runs events] filename_not_written by blast
  then have "s ''filename'' = init_entry analysis_progress analysis_id ''filename''"
    using assms(2) by (rule entry_states_other)
  also have "\<dots> = upload_entry name ''filename''"
    using init_entry_other [of analysis_progress analysis_id, OF assms(1) filename_not_written] .
  finally have f: "s ''filename'' = Some (PyStr name)"
    by (simp add: upload_entry_def)
  show ?thesis
    using d f by (simp add: get_progress_def)
qed


theorem get_progress_whole_entry_witness:
  "get_progress (two_jobs(''b'' \<mapsto> init_entry two_jobs ''b'')) ''b''
     = (200, init_entry two_jobs ''b'')
   \<and> dom (init_entry two_jobs ''b'') =
       {''filename'', ''status'', ''progress'', ''total_moves'', ''current_move'',
        ''results'', ''error''}
   \<and> init_entry two_jobs ''b'' ''filename'' = Some (PyStr ''second.pgn'')
   \<and> get_progress two_jobs ''c'' = (404, [''error'' \<mapsto> PyStr not_found_message])"
proof -
  have "two_jobs ''b'' = Some (upload_entry ''second.pgn'')"
    and "two_jobs ''c'' = None"
    by (simp_all add: two_jobs_def)
  then show ?thesis
    using get_progress_whole_entry [of two_jobs "''b''" "''second.pgn''" "init_entry two_jobs ''b''"
        plain_lib "Inr []" dead_engines "[]"] entry_states_head
    by simp
qed

text \<open>
  C8 as stated fails: the snapshot of a freshly uploaded job also has the fields
  \<^verbatim>\<open>results\<close> and \<^verbatim>\<open>filename\<close>, so its fields are not the five listed.
\<close>

theorem get_progress_more_fields:
  "snd (get_progress two_jobs ''b'') ''results'' = Some PyNone
   \<and> snd (get_progress two_jobs ''b'') ''filename'' = Some (PyStr ''second.pgn'')
   \<and> dom (snd (get_progress two_jobs ''b''))
       \<noteq> {''status'', ''progress'', ''total_moves'', ''current_move'', ''error''}"
proof -
  have g: "get_progress two_jobs ''b'' = (200, upload_entry ''second.pgn'')"
    by (simp add: get_progress_def two_jobs_def)
  have "''results'' \<in> dom (upload_entry ''second.pgn'')"
    by (simp add: upload_entry_def)
  moreover have "''results'' \<notin> {''status'', ''progress'', ''total_moves'', ''current_move'', ''error''}"
    by simp
  ultimately have "dom (upload_entry ''second.pgn'')
       \<noteq> {''status'', ''progress'', ''total_moves'', ''current_move'', ''error''}"
    by metis
  then show ?thesis
    by (simp add: g) (simp add: upload_entry_def)
qed

section \<open>Properties of the job\<close>

lemma loaded_games_length: "length (fst (read_games lib games 0 [] [])) = length games"
  by (simp add: loaded_games)

text \<open>
  C3 fails on the code: no assignment of \<^verbatim>\<open>analyze_pgn_async\<close> ever sets the
  status to \<^verbatim>\<open>"error"\<close>. With a corpus of zero games the fixed message is stored
  under \<^verbatim>\<open>error\<close> and the results stay \<^verbatim>\<open>None\<close>, but the status is still
  \<^verbatim>\<open>"starting"\<close>; with a fault of the pool the message is stored and the progress
  recorded so far is kept, but the status is still \<^verbatim>\<open>"analyzing"\<close>. In both cases
  \<^verbatim>\<open>get_results\<close>, which tests the status against \<^verbatim>\<open>"error"\<close>, answers that the
  job is still being processed.
\<close>

theorem failed_job_status_unchanged:
  "analyze_pgn_async lib analysis_progress analysis_id (Inr []) runs events analysis_id
     = Some ((init_entry analysis_progress analysis_id)
               (''error'' \<mapsto> PyStr ''Le fichier PGN est invalide ou vide.''))
   \<and> ((init_entry analysis_progress analysis_id)
         (''error'' \<mapsto> PyStr ''Le fichier PGN est invalide ou vide.'')) ''status''
       = Some (PyStr ''starting'')
   \<and> get_results
         (analyze_pgn_async lib analysis_progress analysis_id (Inr []) runs events) analysis_id
       = Inr StillProcessing
   \<and> analyze_pgn_async lib analysis_progress analysis_id (Inr (game # games)) runs
         (Inl e # events) analysis_id
       = Some ((init_entry analysis_progress analysis_id)
                 (''total_moves'' \<mapsto> PyInt (length (snd (read_games lib (game # games) 0 [] []))),
                  ''status'' \<mapsto> PyStr ''analyzing'',
                  ''error'' \<mapsto> PyStr (str_exception e)))
   \<and> get_results
         (analyze_pgn_async lib analysis_progress analysis_id (Inr (game # games)) runs
            (Inl e # events)) analysis_id
       = Inr StillProcessing"
proof -
  have ne: "fst (read_games lib (game # games) 0 [] []) \<noteq> []"
    using loaded_games_length [of lib "game # games"] by auto
  have 1: "job_writes lib (Inr []) runs events
           = [(''error'', PyStr ''Le fichier PGN est invalide ou vide.'')]"
    by (simp add: job_writes_def)
  have 2: "job_writes lib (Inr (game # games)) runs (Inl e # events)
           = [(''total_moves'', PyInt (length (snd (read_games lib (game # games) 0 [] [])))),
              (''status'', PyStr ''analyzing''),
              (''error'', PyStr (str_exception e))]"
    using ne by (simp add: job_writes_def Let_def del: read_games.simps)
  show ?thesis
    unfolding analyze_pgn_async_def 1 2
    by (simp add: apply_write_def get_results_def init_entry_fields)
qed

text \<open>
  The same holds for every run: a worker that raised leaves the games untouched, the
  status of the entry is never \<^verbatim>\<open>"error"\<close>, and \<^verbatim>\<open>get_results\<close> never shows
  its error page.
\<close>

lemma record_result_worker_raised:
  "analyze_position lib (runs i) (all_positions ! i) = Inl e \<Longrightarrow>
   record_result lib runs all_positions all_games i = all_games"
  by (simp add: record_result_def)

lemma completion_loop_status:
  "(key, v) \<in> set (fst (completion_loop lib runs ap events c ag)) \<Longrightarrow> key \<noteq> ''status''"
  using completion_loop_keys [of lib runs ap events c ag] by force

lemma job_writes_status:
  assumes "(''status'', v) \<in> set (job_writes lib corpus runs events)"
  shows "v = PyStr ''analyzing'' \<or> v = PyStr ''completed''"
proof (cases corpus)
  case (Inl e)
  then show ?thesis using assms by (simp add: job_writes_def)
next
  case (Inr games)
  then show ?thesis
    using assms completion_loop_status [of "''status''" v lib runs]
    by (auto simp add: job_writes_def Let_def split: if_splits sum.splits)
qed

lemma foldl_apply_write_cases:
  "foldl apply_write entry ws key = entry key
   \<or> (\<exists>v. (key, v) \<in> set ws \<and> foldl apply_write entry ws key = Some v)"
proof (induction ws arbitrary: entry)
  case Nil
  then show ?case by simp
next
  case (Cons w ws)
  obtain k v where w: "w = (k, v)" by (cases w)
  define e' where "e' = apply_write entry w"
  have e': "e' key = (if key = k then Some v else entry key)"
    by (simp add: e'_def w apply_write_at)
  have step: "foldl apply_write entry (w # ws) key = foldl apply_write e' ws key"
    by (simp add: e'_def)
  from Cons.IH [of e'] consider "foldl apply_write e' ws key = e' key"
    | u where "(key, u) \<in> set ws" "foldl apply_write e' ws key = Some u"
    by blast
  then show ?case
  proof cases
    case 1
    then show ?thesis unfolding step using e' w by (cases "key = k") auto
  next
    case 2
    then show ?thesis unfolding step by auto
  qed
qed

lemma status_never_error:
  assumes "analyze_pgn_async lib analysis_progress analysis_id corpus runs events analysis_id
           = Some final"
  shows "final ''status'' = Some (PyStr ''starting'')
       \<or> final ''status'' = Some (PyStr ''analyzing'')
       \<or> final ''status'' = Some (PyStr ''completed'')"
proof -
  have f: "final = foldl apply_write (init_entry analysis_progress analysis_id)
                     (job_writes lib corpus runs events)"
    using assms by (simp add: analyze_pgn_async_def)
  from foldl_apply_write_cases
    [of "init_entry analysis_progress analysis_id" "job_writes lib corpus runs events" "''status''"]
  show ?thesis
    unfolding f [symmetric] using job_writes_status [of _ lib corpus runs events]
    by (auto simp add: init_entry_fields)
qed

lemma get_results_never_error_page:
  "get_results (analyze_pgn_async lib analysis_progress analysis_id corpus runs events)
     analysis_id \<noteq> Inr (ErrorPage m)"
proof -
  obtain final where
    f: "analyze_pgn_async lib analysis_progress analysis_id corpus runs events analysis_id
        = Some final"
    by (simp add: analyze_pgn_async_def)
  from status_never_error [OF f] show ?thesis
    by (auto simp add: get_results_def f split: option.splits)
qed

lemma percent_le_100_any: "c \<le> t \<Longrightarrow> percent c t \<le> 100"
  using percent_le_100 [of t c] percent_zero [of t] by (cases "t = 0") simp_all

lemma nat_field_update:
  "nat_field (apply_write entry (key', v)) key =
     (if key = key' then (case v of PyInt n \<Rightarrow> n | _ \<Rightarrow> 0) else nat_field entry key)"
  by (simp add: nat_field_def apply_write_def)

lemma neutral_states:
  assumes "key \<notin> fst ` set ws" and "s \<in> set (entry_states entry ws)"
  shows "nat_field s key = nat_field entry key"
  using entry_states_other [OF assms] by (simp add: nat_field_def)

lemma constant_sorted: "(\<forall>x \<in> set xs. f x = (v::nat)) \<Longrightarrow> sorted (map f xs)"
  by (induction xs) simp_all

lemma loop_states:
  assumes "c + length events \<le> length ap"
    and "nat_field e ''total_moves'' = length ap"
    and "nat_field e ''current_move'' = c"
    and "nat_field e ''progress'' = percent c (length ap)"
    and "fst ` set tail \<inter> numeric_keys = {}"
  shows "(\<forall>s \<in> set (entry_states e (fst (completion_loop lib runs ap events c ag) @ tail)).
            nat_field s ''total_moves'' = length ap
          \<and> nat_field s ''current_move'' \<le> length ap
          \<and> nat_field e ''progress'' \<le> nat_field s ''progress''
          \<and> nat_field s ''progress'' \<le> 100
          \<and> (nat_field s ''progress'' = percent (nat_field s ''current_move'') (length ap)
             \<or> nat_field s ''progress'' = percent (nat_field s ''current_move'' - 1) (length ap)))
       \<and> sorted (map (\<lambda>s. nat_field s ''progress'')
                   (entry_states e (fst (completion_loop lib runs ap events c ag) @ tail)))"
  using assms
proof (induction events arbitrary: c ag e)
  case Nil
  have k: "''total_moves'' \<notin> fst ` set tail" "''current_move'' \<notin> fst ` set tail"
    "''progress'' \<notin> fst ` set tail"
    using Nil.prems(5) by (auto simp: numeric_keys_def)
  have c: "c \<le> length ap" using Nil.prems(1) by simp
  have p: "nat_field e ''progress'' \<le> 100"
    using Nil.prems(4) percent_le_100_any [OF c] by simp
  have "\<forall>s \<in> set (entry_states e tail). nat_field s ''progress'' = nat_field e ''progress''"
    using neutral_states [OF k(3)] by blast
  then have "sorted (map (\<lambda>s. nat_field s ''progress'') (entry_states e tail))"
    by (rule constant_sorted)
  then show ?case
    using neutral_states [OF k(1)] neutral_states [OF k(2)] neutral_states [OF k(3)]
      Nil.prems(2,3,4) c p
    by simp
next
  case (Cons ev events)
  have k: "''total_moves'' \<notin> fst ` set tail" "''current_move'' \<notin> fst ` set tail"
    "''progress'' \<notin> fst ` set tail"
    using Cons.prems(5) by (auto simp: numeric_keys_def)
  have c: "c \<le> length ap" using Cons.prems(1) by simp
  have p: "nat_field e ''progress'' \<le> 100"
    using Cons.prems(4) percent_le_100_any [OF c] by simp
  show ?case
  proof (cases ev)
    case (Inl x)
    have "\<forall>s \<in> set (entry_states e tail). nat_field s ''progress'' = nat_field e ''progress''"
      using neutral_states [OF k(3)] by blast
    then have "sorted (map (\<lambda>s. nat_field s ''progress'') (entry_states e tail))"
      by (rule constant_sorted)
    then show ?thesis
      using neutral_states [OF k(1)] neutral_states [OF k(2)] neutral_states [OF k(3)]
        Cons.prems(2,3,4) c p Inl
      by simp
  next
    case (Inr i)
    have pos: "length ap \<noteq> 0" and c1: "c + 1 \<le> length ap"
      using Cons.prems(1) by auto
    define e1 where "e1 = apply_write e (''current_move'', PyInt (c + 1))"
    define e2 where "e2 = apply_write e1 (''progress'', PyInt (percent (c + 1) (length ap)))"
    define rest where "rest = fst (completion_loop lib runs ap events (c + 1)
                                     (record_result lib runs ap ag i)) @ tail"
    have st: "entry_states e (fst (completion_loop lib runs ap (ev # events) c ag) @ tail)
              = e # e1 # entry_states e2 rest"
      using pos Inr by (simp add: Let_def e1_def e2_def rest_def)
    have e1f: "nat_field e1 ''total_moves'' = length ap" "nat_field e1 ''current_move'' = c + 1"
      "nat_field e1 ''progress'' = nat_field e ''progress''"
      using Cons.prems(2) by (simp_all add: e1_def nat_field_update)
    have e2f: "nat_field e2 ''total_moves'' = length ap" "nat_field e2 ''current_move'' = c + 1"
      "nat_field e2 ''progress'' = percent (c + 1) (length ap)"
      using e1f by (simp_all add: e2_def nat_field_update)
    have mono: "nat_field e ''progress'' \<le> percent (c + 1) (length ap)"
      using Cons.prems(4) percent_mono [of "length ap" c "c + 1"] pos by simp
    have ih: "(\<forall>s \<in> set (entry_states e2 rest).
            nat_field s ''total_moves'' = length ap
          \<and> nat_field s ''current_move'' \<le> length ap
          \<and> nat_field e2 ''progress'' \<le> nat_field s ''progress''
          \<and> nat_field s ''progress'' \<le> 100
          \<and> (nat_field s ''progress'' = percent (nat_field s ''current_move'') (length ap)
             \<or> nat_field s ''progress'' = percent (nat_field s ''current_move'' - 1) (length ap)))
       \<and> sorted (map (\<lambda>s. nat_field s ''progress'') (entry_states e2 rest))"
      unfolding rest_def
      using Cons.prems(1) e2f Cons.prems(5)
      by (intro Cons.IH) simp_all
    have later: "\<forall>s \<in> set (entry_states e2 rest). nat_field e ''progress'' \<le> nat_field s ''progress''"
      using ih mono e2f(3) by fastforce
    show ?thesis
      unfolding st
      using ih later e1f Cons.prems(2,3,4) c c1 p
      by simp
  qed
qed


lemma init_entry_numeric:
  "nat_field (init_entry reg aid) ''total_moves'' = 0"
  "nat_field (init_entry reg aid) ''current_move'' = 0"
  "nat_field (init_entry reg aid) ''progress'' = 0"
  by (simp_all add: nat_field_def init_entry_fields)

lemma single_neutral_write:
  assumes "key \<notin> numeric_keys"
  shows "(\<forall>s \<in> set (entry_states (init_entry reg aid) [(key, v)]).
            nat_field s ''current_move'' \<le> nat_field s ''total_moves''
          \<and> nat_field s ''progress'' \<le> 100
          \<and> (0 < nat_field s ''total_moves'' \<longrightarrow>
               nat_field s ''progress''
                 = percent (nat_field s ''current_move'') (nat_field s ''total_moves'')
             \<or> nat_field s ''progress''
                 = percent (nat_field s ''current_move'' - 1) (nat_field s ''total_moves'')))
       \<and> sorted (map (\<lambda>s. nat_field s ''progress'') (entry_states (init_entry reg aid) [(key, v)]))"
  using assms by (auto simp add: nat_field_update init_entry_numeric numeric_keys_def)

lemma two_ply_positions:
  "snd (read_games plain_lib [two_ply_game] 0 [] []) =
     [\<lparr>board = 0, move_number = 1, turn = ''Blancs'', game_number = 1\<rparr>,
      \<lparr>board = 1, move_number = 1, turn = ''Noirs'', game_number = 1\<rparr>]"
  by (simp add: two_ply_game_def plain_lib_def)

lemma two_ply_run_states:
  "map (\<lambda>s. (nat_field s ''current_move'', nat_field s ''total_moves'', nat_field s ''progress''))
         (entry_states (init_entry Map.empty ''job'')
            (job_writes plain_lib (Inr [two_ply_game]) sharp_engines [Inr 1, Inr 0]))
       = [(0, 0, 0), (0, 2, 0), (0, 2, 0), (1, 2, 0), (1, 2, 50), (2, 2, 50), (2, 2, 100),
          (2, 2, 100), (2, 2, 100)]"
proof -
  have p1: "percent 1 2 = 50" and p2: "percent 2 2 = 100"
    by (simp_all add: percent_def py_int_def fl_mul_def py_truediv_def fl_round_def expo_def
        round_half_even_def compute_floorlog Let_def)
  have p1s: "percent (Suc 0) (Suc (Suc 0)) = 50" and p2s: "percent (Suc (Suc 0)) (Suc (Suc 0)) = 100"
    using p1 p2 by (simp_all add: numeral_2_eq_2)
  show ?thesis
    by (simp add: job_writes_def two_ply_game_def Let_def nat_field_update init_entry_numeric
        p1s p2s split: sum.splits)
qed

lemma percent_29_of_100: "percent 29 100 = 28"
  by (simp add: percent_def py_int_def fl_mul_def py_truediv_def fl_round_def expo_def
      round_half_even_def compute_floorlog Let_def)

lemma lagging_percent_bounds:
  assumes "0 < t" "t \<le> 2 ^ 44" "c \<le> t"
    and "p = percent c t \<or> p = percent (c - 1) t"
  shows "p \<le> 100 * c div t \<and> 100 * (c - 1) div t \<le> p + 1"
proof -
  have m: "100 * (c - 1) div t \<le> 100 * c div t"
    by (intro div_le_mono) simp
  have c1: "c - 1 \<le> t" using assms(3) by simp
  note a = percent_bounds [OF assms(1) assms(3) assms(2)]
  note b = percent_bounds [OF assms(1) c1 assms(2)]
  from assms(4) show ?thesis
  proof
    assume "p = percent c t"
    then show ?thesis using a m by simp
  next
    assume "p = percent (c - 1) t"
    then show ?thesis using b m by simp
  qed
qed

lemma progress_states:
  assumes "length events \<le> length (enumerated lib corpus)"
  shows "(\<forall>s \<in> set (entry_states (init_entry analysis_progress analysis_id)
                       (job_writes lib corpus runs events)).
            nat_field s ''current_move'' \<le> nat_field s ''total_moves''
          \<and> nat_field s ''progress'' \<le> 100
          \<and> (0 < nat_field s ''total_moves'' \<longrightarrow>
               nat_field s ''progress''
                 = percent (nat_field s ''current_move'') (nat_field s ''total_moves'')
             \<or> nat_field s ''progress''
                 = percent (nat_field s ''current_move'' - 1) (nat_field s ''total_moves'')))
       \<and> sorted (map (\<lambda>s. nat_field s ''progress'')
                   (entry_states (init_entry analysis_progress analysis_id)
                      (job_writes lib corpus runs events)))"
proof (cases corpus)
  case (Inl x)
  then show ?thesis
    using single_neutral_write [of "''error''"]
    by (simp add: job_writes_def numeric_keys_def)
next
  case (Inr games)
  define ap where "ap = snd (read_games lib games 0 [] [])"
  define ag where "ag = fst (read_games lib games 0 [] [])"
  show ?thesis
  proof (cases "ag = []")
    case True
    then show ?thesis
      using single_neutral_write [of "''error''"] Inr
      by (simp add: job_writes_def numeric_keys_def ag_def Let_def)
  next
    case False
    define e0 where "e0 = init_entry analysis_progress analysis_id"
    define e1 where "e1 = apply_write e0 (''total_moves'', PyInt (length ap))"
    define e2 where "e2 = apply_write e1 (''status'', PyStr ''analyzing'')"
    define tail where "tail =
       (case snd (completion_loop lib runs ap events 0 ag) of
          Inl e \<Rightarrow> [(''error'', PyStr (str_exception e))]
        | Inr final_games \<Rightarrow>
            [(''status'', PyStr ''completed''), (''results'', PyGames final_games)])"
    have w: "job_writes lib corpus runs events =
        (''total_moves'', PyInt (length ap)) # (''status'', PyStr ''analyzing'') #
        (fst (completion_loop lib runs ap events 0 ag) @ tail)"
      using False Inr by (simp add: job_writes_def Let_def ag_def ap_def tail_def)
    have st: "entry_states e0 (job_writes lib corpus runs events) =
        e0 # e1 # entry_states e2 (fst (completion_loop lib runs ap events 0 ag) @ tail)"
      unfolding w by (simp add: e1_def e2_def)
    have e0f: "nat_field e0 ''total_moves'' = 0" "nat_field e0 ''current_move'' = 0"
      "nat_field e0 ''progress'' = 0"
      by (simp_all add: e0_def init_entry_numeric)
    have e1f: "nat_field e1 ''total_moves'' = length ap" "nat_field e1 ''current_move'' = 0"
      "nat_field e1 ''progress'' = 0"
      using e0f by (simp_all add: e1_def nat_field_update)
    have e2f: "nat_field e2 ''total_moves'' = length ap" "nat_field e2 ''current_move'' = 0"
      "nat_field e2 ''progress'' = 0"
      using e1f by (simp_all add: e2_def nat_field_update)
    have neutral: "fst ` set tail \<inter> numeric_keys = {}"
      by (simp add: tail_def numeric_keys_def split: sum.splits)
    have len: "0 + length events \<le> length ap"
      using assms Inr by (simp add: enumerated_def ap_def)
    have "nat_field e2 ''progress'' = percent 0 (length ap)"
      by (simp add: e2f percent_zero)
    note loop = loop_states [OF len e2f(1) e2f(2) this neutral, of lib runs ag]
    show ?thesis
      unfolding e0_def [symmetric] st
      using loop e0f e1f e2f by (simp add: percent_zero)
  qed
qed

text \<open>
  C4, as the source has it. Let the pool deliver no more events than there are
  positions. Then in every state of the entry that a poll can observe, from the
  initialisation through each single assignment, the completed count is at most the
  total count and the percentage is at most 100 (and, being a natural number, never
  negative); once the total is set, the percentage is the value of the expression of
  line 240 for the completed count shown or for the one before it, so that, for a total
  of at most \<open>2 ^ 44\<close>, it is at most the floor of \<open>100 * completed / total\<close> and at
  least the floor of \<open>100 * (completed - 1) / total\<close> minus one; and along the sequence
  of states the percentage never decreases.
\<close>

theorem progress_invariants:
  assumes "length events \<le> length (enumerated lib corpus)"
  shows "(\<forall>s \<in> set (entry_states (init_entry analysis_progress analysis_id)
                       (job_writes lib corpus runs events)).
            nat_field s ''current_move'' \<le> nat_field s ''total_moves''
          \<and> nat_field s ''progress'' \<le> 100
          \<and> (0 < nat_field s ''total_moves'' \<longrightarrow>
               nat_field s ''progress''
                 = percent (nat_field s ''current_move'') (nat_field s ''total_moves'')
             \<or> nat_field s ''progress''
                 = percent (nat_field s ''current_move'' - 1) (nat_field s ''total_moves''))
          \<and> (0 < nat_field s ''total_moves'' \<and> nat_field s ''total_moves'' \<le> 2 ^ 44 \<longrightarrow>
               nat_field s ''progress''
                 \<le> 100 * nat_field s ''current_move'' div nat_field s ''total_moves''
             \<and> 100 * (nat_field s ''current_move'' - 1) div nat_field s ''total_moves''
                 \<le> nat_field s ''progress'' + 1))
       \<and> sorted (map (\<lambda>s. nat_field s ''progress'')
                   (entry_states (init_entry analysis_progress analysis_id)
                      (job_writes lib corpus runs events)))"
proof -
  note core = progress_states [OF assms, of analysis_progress analysis_id runs]
  have "nat_field s ''progress''
          \<le> 100 * nat_field s ''current_move'' div nat_field s ''total_moves''
        \<and> 100 * (nat_field s ''current_move'' - 1) div nat_field s ''total_moves''
          \<le> nat_field s ''progress'' + 1"
    if s: "s \<in> set (entry_states (init_entry analysis_progress analysis_id)
                       (job_writes lib corpus runs events))"
      and t: "0 < nat_field s ''total_moves''" "nat_field s ''total_moves'' \<le> 2 ^ 44"
    for s
  proof -
    from core s have c: "nat_field s ''current_move'' \<le> nat_field s ''total_moves''"
      and p: "nat_field s ''progress''
                = percent (nat_field s ''current_move'') (nat_field s ''total_moves'')
              \<or> nat_field s ''progress''
                = percent (nat_field s ''current_move'' - 1) (nat_field s ''total_moves'')"
      using t(1) by blast+
    show ?thesis
      by (rule lagging_percent_bounds [OF t c p])
  qed
  with core show ?thesis by blast
qed

theorem progress_invariants_witness:
  "sorted (map (\<lambda>s. nat_field s ''progress'')
             (entry_states (init_entry Map.empty ''job'')
                (job_writes plain_lib (Inr [two_ply_game]) sharp_engines
                   [Inr 1, Inr 0])))
   \<and> map (\<lambda>s. (nat_field s ''current_move'', nat_field s ''total_moves'', nat_field s ''progress''))
         (entry_states (init_entry Map.empty ''job'')
            (job_writes plain_lib (Inr [two_ply_game]) sharp_engines [Inr 1, Inr 0]))
       = [(0, 0, 0), (0, 2, 0), (0, 2, 0), (1, 2, 0), (1, 2, 50), (2, 2, 50), (2, 2, 100),
          (2, 2, 100), (2, 2, 100)]"
proof -
  have "length [Inr 1, Inr 0 :: py_exception + nat]
        \<le> length (enumerated plain_lib (Inr [two_ply_game]))"
    unfolding enumerated_def sum.case two_ply_positions by simp
  from progress_invariants [OF this, of Map.empty "''job''" sharp_engines]
  have "sorted (map (\<lambda>s. nat_field s ''progress'')
             (entry_states (init_entry Map.empty ''job'')
                (job_writes plain_lib (Inr [two_ply_game]) sharp_engines
                   [Inr 1, Inr 0])))"
    by (rule conjunct2)
  then show ?thesis
    using two_ply_run_states by (rule conjI)
qed

text \<open>
  C4 as stated fails: the percentage is assigned after the completed count, so a poll
  between lines 239 and 240 sees 1 of 2 tasks completed and a percentage of 0, not 50.
  Moreover the expression of line 240 is evaluated in double precision: for 29 of 100
  tasks it gives 28, where the floor of the exact quotient is 29.
\<close>

theorem progress_not_floor:
  "nat_field (entry_states (init_entry Map.empty ''job'')
                (job_writes plain_lib (Inr [two_ply_game]) sharp_engines [Inr 1, Inr 0]) ! 3)
     ''current_move'' = 1
   \<and> nat_field (entry_states (init_entry Map.empty ''job'')
                (job_writes plain_lib (Inr [two_ply_game]) sharp_engines [Inr 1, Inr 0]) ! 3)
     ''total_moves'' = 2
   \<and> nat_field (entry_states (init_entry Map.empty ''job'')
                (job_writes plain_lib (Inr [two_ply_game]) sharp_engines [Inr 1, Inr 0]) ! 3)
     ''progress'' = 0
   \<and> (1 * 100) div 2 = (50 :: nat)
   \<and> percent 29 100 = 28
   \<and> (29 * 100) div 100 = (29 :: nat)"
proof -
  define states where "states = entry_states (init_entry Map.empty ''job'')
                (job_writes plain_lib (Inr [two_ply_game]) sharp_engines [Inr 1, Inr 0])"
  define f where "f = (\<lambda>s. (nat_field s ''current_move'', nat_field s ''total_moves'',
                            nat_field s ''progress''))"
  have m: "map f states = [(0, 0, 0), (0, 2, 0), (0, 2, 0), (1, 2, 0), (1, 2, 50), (2, 2, 50),
                           (2, 2, 100), (2, 2, 100), (2, 2, 100)]"
    unfolding f_def states_def by (rule two_ply_run_states)
  have "length (map f states) = 9" unfolding m by simp
  then have "3 < length states" by simp
  then have "f (states ! 3) = map f states ! 3" by simp
  also have "\<dots> = (1, 2, 0)" unfolding m by simp
  finally have "nat_field (states ! 3) ''current_move'' = 1
      \<and> nat_field (states ! 3) ''total_moves'' = 2
      \<and> nat_field (states ! 3) ''progress'' = 0"
    by (simp add: f_def)
  then show ?thesis
    unfolding states_def using percent_29_of_100 by simp
qed

lemma loop_done_fields:
  assumes "0 < length ap"
  shows "foldl apply_write entry (fst (completion_loop lib runs ap (map Inr order) c ag)) key =
     (if order = [] then entry key
      else if key = ''current_move'' then Some (PyInt (c + length order))
      else if key = ''progress'' then Some (PyInt (percent (c + length order) (length ap)))
      else entry key)"
proof (induction order arbitrary: c ag entry)
  case Nil
  then show ?case by simp
next
  case (Cons i order)
  show ?case
    using assms by (simp add: Let_def Cons.IH apply_write_at)
qed

lemma loop_done_result:
  assumes "0 < length ap"
  shows "snd (completion_loop lib runs ap (map Inr order) c ag)
         = Inr (foldl (record_result lib runs ap) ag order)"
  using assms by (induction order arbitrary: c ag) (simp_all add: Let_def)

lemma add_moment_map:
  assumes "distinct (map gi_game_number ag)"
  shows "add_moment n r ag =
         map (\<lambda>g. if gi_game_number g = n
                   then g\<lparr>critical_moments := critical_moments g @ [r]\<rparr> else g) ag"
  using assms
proof (induction ag)
  case Nil
  then show ?case by simp
next
  case (Cons g gs)
  show ?case
  proof (cases "gi_game_number g = n")
    case True
    have "n \<notin> gi_game_number ` set gs" using Cons.prems True by simp
    then have "\<forall>x \<in> set gs. gi_game_number x \<noteq> n" by blast
    then have "map (\<lambda>g. if gi_game_number g = n
                   then g\<lparr>critical_moments := critical_moments g @ [r]\<rparr> else g) gs = gs"
      by (intro map_idI) simp
    then show ?thesis using True by simp
  next
    case False
    then show ?thesis using Cons by simp
  qed
qed

lemma record_result_map:
  assumes "distinct (map gi_game_number ag)"
  shows "record_result lib runs ap ag i =
         map (\<lambda>g. g\<lparr>critical_moments := critical_moments g @
                      moments_of lib runs ap [i] (gi_game_number g)\<rparr>) ag"
proof -
  have id: "map (\<lambda>g. g\<lparr>critical_moments := critical_moments g @ []\<rparr>) ag = ag"
    by (intro map_idI) simp
  show ?thesis
  proof (cases "i < length ap")
    case False
    then show ?thesis by (simp add: record_result_def moments_of_def id)
  next
    case True
    show ?thesis
    proof (cases "analyze_position lib (runs i) (ap ! i)")
      case (Inl e)
      then show ?thesis using True
        by (simp add: record_result_def moments_of_def id cong: if_cong)
    next
      case (Inr ro)
      show ?thesis
      proof (cases ro)
        case None
        then show ?thesis using True Inr
          by (simp add: record_result_def moments_of_def id cong: if_cong)
      next
        case (Some r)
        have "map (\<lambda>g. if gi_game_number g = game_number (ap ! i)
                   then g\<lparr>critical_moments := critical_moments g @ [r]\<rparr> else g) ag
            = map (\<lambda>g. g\<lparr>critical_moments := critical_moments g @
                 (if game_number (ap ! i) = gi_game_number g then [r] else [])\<rparr>) ag"
          by (intro map_cong) auto
        then show ?thesis using True Inr Some
          by (simp add: record_result_def moments_of_def add_moment_map [OF assms] cong: if_cong)
      qed
    qed
  qed
qed

lemma moments_of_Cons:
  "moments_of lib runs ap (i # order) n = moments_of lib runs ap [i] n @ moments_of lib runs ap order n"
  by (simp add: moments_of_def)

lemma foldl_record_result:
  assumes "distinct (map gi_game_number ag)"
  shows "foldl (record_result lib runs ap) ag order =
         map (\<lambda>g. g\<lparr>critical_moments := critical_moments g @
                      moments_of lib runs ap order (gi_game_number g)\<rparr>) ag"
  using assms
proof (induction order arbitrary: ag)
  case Nil
  have "map (\<lambda>g. g\<lparr>critical_moments := critical_moments g @ []\<rparr>) ag = ag"
    by (intro map_idI) simp
  then show ?case by (simp add: moments_of_def)
next
  case (Cons i order)
  define ag' where "ag' = record_result lib runs ap ag i"
  have m: "ag' = map (\<lambda>g. g\<lparr>critical_moments := critical_moments g @
                      moments_of lib runs ap [i] (gi_game_number g)\<rparr>) ag"
    unfolding ag'_def by (rule record_result_map [OF Cons.prems])
  have "map gi_game_number ag' = map gi_game_number ag"
    unfolding m by (simp add: comp_def)
  then have d: "distinct (map gi_game_number ag')" using Cons.prems by simp
  have "foldl (record_result lib runs ap) ag (i # order) = foldl (record_result lib runs ap) ag' order"
    by (simp add: ag'_def)
  also have "\<dots> = map (\<lambda>g. g\<lparr>critical_moments := critical_moments g @
                      moments_of lib runs ap order (gi_game_number g)\<rparr>) ag'"
    by (rule Cons.IH [OF d])
  also have "\<dots> = map (\<lambda>g. g\<lparr>critical_moments := critical_moments g @
                      moments_of lib runs ap (i # order) (gi_game_number g)\<rparr>) ag"
    unfolding m by (simp add: comp_def moments_of_Cons [of lib runs ap i order])
  finally show ?case .
qed

lemma loaded_games_distinct:
  "distinct (map gi_game_number (fst (read_games lib games 0 [] [])))"
proof -
  have "map gi_game_number (fst (read_games lib games 0 [] [])) = map Suc [0..<length games]"
    by (simp add: loaded_games make_game_info_def comp_def)
  then show ?thesis by (simp add: distinct_map)
qed


lemma job_writes_all_done:
  assumes "games \<noteq> []"
    and "0 < length (snd (read_games lib games 0 [] [])) \<or> order = []"
  shows "job_writes lib (Inr games) runs (map Inr order) =
     (''total_moves'', PyInt (length (snd (read_games lib games 0 [] [])))) #
     (''status'', PyStr ''analyzing'') #
     fst (completion_loop lib runs (snd (read_games lib games 0 [] [])) (map Inr order) 0
            (fst (read_games lib games 0 [] []))) @
     [(''status'', PyStr ''completed''),
      (''results'', PyGames (foldl (record_result lib runs (snd (read_games lib games 0 [] [])))
                               (fst (read_games lib games 0 [] [])) order))]"
proof -
  have ne: "fst (read_games lib games 0 [] []) \<noteq> []"
    using assms(1) loaded_games_length [of lib games] by auto
  have "snd (completion_loop lib runs (snd (read_games lib games 0 [] [])) (map Inr order) 0
               (fst (read_games lib games 0 [] [])))
        = Inr (foldl (record_result lib runs (snd (read_games lib games 0 [] [])))
                 (fst (read_games lib games 0 [] [])) order)"
    using assms(2)
  proof
    assume "0 < length (snd (read_games lib games 0 [] []))"
    then show ?thesis by (rule loop_done_result)
  next
    assume "order = []"
    then show ?thesis by simp
  qed
  then show ?thesis
    using ne by (simp add: job_writes_def Let_def)
qed

lemma aggregated_games:
  "foldl (record_result lib runs ap) (fst (read_games lib games 0 [] [])) order =
     map (\<lambda>i. (make_game_info (i + 1) (headers (games ! i)))
                 \<lparr>critical_moments := moments_of lib runs ap order (i + 1)\<rparr>) [0..<length games]"
  unfolding foldl_record_result [OF loaded_games_distinct]
  by (simp add: loaded_games comp_def make_game_info_def)

text \<open>
  C5, as the source has it. Take a corpus with at least one game and \<open>N\<close> positions, and
  a pool that delivers every task exactly once and raises nothing. The job ends with
  the completed count equal to the total count \<open>N\<close>, the status \<^verbatim>\<open>"completed"\<close>, no
  error, and as results the loaded games, each with the critical moments of its own
  positions in completion order. The percentage is 100 when there is a position; when
  no game has a move it is 0, the value of the initialisation, because the only
  assignment to it is in the body of the loop over the completed tasks.
\<close>

theorem job_completes_all_tasks:
  assumes "games \<noteq> []"
    and "distinct order"
    and "set order = {..<length (snd (read_games lib games 0 [] []))}"
  shows "\<exists>final.
           analyze_pgn_async lib analysis_progress analysis_id (Inr games) runs (map Inr order)
             analysis_id = Some final
         \<and> final ''current_move'' = Some (PyInt (length (snd (read_games lib games 0 [] []))))
         \<and> final ''total_moves'' = Some (PyInt (length (snd (read_games lib games 0 [] []))))
         \<and> final ''progress'' =
             Some (PyInt (if length (snd (read_games lib games 0 [] [])) = 0 then 0 else 100))
         \<and> final ''status'' = Some (PyStr ''completed'')
         \<and> final ''error'' = Some PyNone
         \<and> final ''results'' = Some (PyGames
               (map (\<lambda>i. (make_game_info (i + 1) (headers (games ! i)))
                            \<lparr>critical_moments :=
                               moments_of lib runs (snd (read_games lib games 0 [] [])) order
                                 (i + 1)\<rparr>)
                  [0..<length games]))"
proof -
  define ap where "ap = snd (read_games lib games 0 [] [])"
  define ag where "ag = fst (read_games lib games 0 [] [])"
  define e2 where "e2 = (init_entry analysis_progress analysis_id)
                          (''total_moves'' \<mapsto> PyInt (length ap), ''status'' \<mapsto> PyStr ''analyzing'')"
  define e3 where "e3 = foldl apply_write e2 (fst (completion_loop lib runs ap (map Inr order) 0 ag))"
  define final where "final = e3(''status'' \<mapsto> PyStr ''completed'',
                                 ''results'' \<mapsto> PyGames (foldl (record_result lib runs ap) ag order))"
  have "card (set order) = length order" using assms(2) by (rule distinct_card)
  then have len: "length order = length ap" using assms(3) by (simp add: ap_def)
  have e3: "e3 key = (if key = ''current_move'' then Some (PyInt (length ap))
                      else if key = ''progress''
                        then Some (PyInt (if length ap = 0 then 0 else 100))
                      else e2 key)" for key
  proof (cases "length ap = 0")
    case True
    then have "order = []" using len by simp
    then show ?thesis
      using True by (simp add: e3_def e2_def init_entry_fields)
  next
    case False
    then have pos: "0 < length ap" by simp
    then have ne: "order \<noteq> []" using len by auto
    show ?thesis
      unfolding e3_def loop_done_fields [OF pos]
      using ne len percent_full [OF pos] False by simp
  qed
  have "0 < length (snd (read_games lib games 0 [] [])) \<or> order = []"
    using len by (auto simp add: ap_def)
  note w = job_writes_all_done [OF assms(1) this]
  have "analyze_pgn_async lib analysis_progress analysis_id (Inr games) runs (map Inr order)
          analysis_id = Some final"
    unfolding analyze_pgn_async_def w
    by (simp add: final_def e3_def e2_def ap_def ag_def apply_write_def)
  moreover have "final ''current_move'' = Some (PyInt (length ap))"
    "final ''total_moves'' = Some (PyInt (length ap))"
    "final ''progress'' = Some (PyInt (if length ap = 0 then 0 else 100))"
    "final ''status'' = Some (PyStr ''completed'')"
    "final ''error'' = Some PyNone"
    by (simp_all add: final_def e3 e2_def init_entry_fields)
  moreover have "final ''results'' = Some (PyGames
               (map (\<lambda>i. (make_game_info (i + 1) (headers (games ! i)))
                            \<lparr>critical_moments := moments_of lib runs ap order (i + 1)\<rparr>)
                  [0..<length games]))"
    by (simp add: final_def ag_def aggregated_games)
  ultimately show ?thesis
    unfolding ap_def by blast
qed

theorem job_completes_all_tasks_witness:
  "snd (get_progress
          (analyze_pgn_async plain_lib Map.empty ''job'' (Inr [two_ply_game])
             sharp_engines [Inr 1, Inr 0]) ''job'')
   = [''status'' \<mapsto> PyStr ''completed'', ''progress'' \<mapsto> PyInt 100, ''total_moves'' \<mapsto> PyInt 2,
      ''current_move'' \<mapsto> PyInt 2, ''error'' \<mapsto> PyNone,
      ''results'' \<mapsto> PyGames
        [\<lparr>gi_game_number = 1, white = ''?'', black = ''?'', result = ''*'',
          date = ''????.??.??'', event = ''?'',
          critical_moments =
            [\<lparr>fen = ''fen'', cm_move_number = 1, cm_turn = ''Noirs'', best_move = ''e4'',
              best_move_eval = ''a'', second_best_move = ''d4'', second_best_move_eval = ''b'',
              difference = (8556839292003942, - 52)\<rparr>,
             \<lparr>fen = ''fen'', cm_move_number = 1, cm_turn = ''Blancs'', best_move = ''e4'',
              best_move_eval = ''a'', second_best_move = ''d4'', second_best_move_eval = ''b'',
              difference = (8556839292003942, - 52)\<rparr>]\<rparr>]]"
proof -
  have "[two_ply_game] \<noteq> []"
    and "distinct [1, 0 :: nat]"
    and "set [1, 0 :: nat] = {..<length (snd (read_games plain_lib [two_ply_game] 0 [] []))}"
    unfolding two_ply_positions by auto
  from job_completes_all_tasks [OF this, of Map.empty "''job''" sharp_engines]
  obtain final where
    f: "analyze_pgn_async plain_lib Map.empty ''job'' (Inr [two_ply_game])
          sharp_engines [Inr 1, Inr 0] ''job'' = Some final"
    and v: "final ''current_move'' = Some (PyInt 2)" "final ''total_moves'' = Some (PyInt 2)"
      "final ''progress'' = Some (PyInt 100)" "final ''status'' = Some (PyStr ''completed'')"
      "final ''error'' = Some PyNone"
    and r: "final ''results'' = Some (PyGames
               (map (\<lambda>i. (make_game_info (i + 1) (headers ([two_ply_game] ! i)))
                            \<lparr>critical_moments :=
                               moments_of plain_lib sharp_engines
                                 (snd (read_games plain_lib [two_ply_game] 0 [] [])) [1, 0]
                                 (i + 1)\<rparr>)
                  [0..<length [two_ply_game]]))"
    unfolding two_ply_positions by auto
  have d: "dom final = written_keys"
  proof -
    have "final = foldl apply_write (init_entry Map.empty ''job'')
                    (job_writes plain_lib (Inr [two_ply_game]) sharp_engines [Inr 1, Inr 0])"
      using f by (simp add: analyze_pgn_async_def)
    moreover have "dom (init_entry Map.empty ''job'') = written_keys"
      by (auto simp add: init_entry_def starting_fields_def written_keys_def split: if_splits)
    moreover have "foldl apply_write e ws \<in> set (entry_states e ws)" for e :: job and ws
      by (induction ws arbitrary: e) simp_all
    ultimately show ?thesis
      using entry_states_dom job_writes_keys by metis
  qed
  have r': "final ''results'' = Some (PyGames
        [\<lparr>gi_game_number = 1, white = ''?'', black = ''?'', result = ''*'',
          date = ''????.??.??'', event = ''?'',
          critical_moments =
            [\<lparr>fen = ''fen'', cm_move_number = 1, cm_turn = ''Noirs'', best_move = ''e4'',
              best_move_eval = ''a'', second_best_move = ''d4'', second_best_move_eval = ''b'',
              difference = (8556839292003942, - 52)\<rparr>,
             \<lparr>fen = ''fen'', cm_move_number = 1, cm_turn = ''Blancs'', best_move = ''e4'',
              best_move_eval = ''a'', second_best_move = ''d4'', second_best_move_eval = ''b'',
              difference = (8556839292003942, - 52)\<rparr>]\<rparr>])"
    unfolding r two_ply_positions
    by (simp add: moments_of_def sharp_engines_def sharp_position make_game_info_def
        headers_get_def two_ply_game_def pgn_headers_fields)
  have "final = [''status'' \<mapsto> PyStr ''completed'', ''progress'' \<mapsto> PyInt 100, ''total_moves'' \<mapsto> PyInt 2,
      ''current_move'' \<mapsto> PyInt 2, ''error'' \<mapsto> PyNone,
      ''results'' \<mapsto> PyGames
        [\<lparr>gi_game_number = 1, white = ''?'', black = ''?'', result = ''*'',
          date = ''????.??.??'', event = ''?'',
          critical_moments =
            [\<lparr>fen = ''fen'', cm_move_number = 1, cm_turn = ''Noirs'', best_move = ''e4'',
              best_move_eval = ''a'', second_best_move = ''d4'', second_best_move_eval = ''b'',
              difference = (8556839292003942, - 52)\<rparr>,
             \<lparr>fen = ''fen'', cm_move_number = 1, cm_turn = ''Blancs'', best_move = ''e4'',
              best_move_eval = ''a'', second_best_move = ''d4'', second_best_move_eval = ''b'',
              difference = (8556839292003942, - 52)\<rparr>]\<rparr>]]"
  proof (rule ext)
    fix key
    show "final key = [''status'' \<mapsto> PyStr ''completed'', ''progress'' \<mapsto> PyInt 100, ''total_moves'' \<mapsto> PyInt 2,
      ''current_move'' \<mapsto> PyInt 2, ''error'' \<mapsto> PyNone,
      ''results'' \<mapsto> PyGames
        [\<lparr>gi_game_number = 1, white = ''?'', black = ''?'', result = ''*'',
          date = ''????.??.??'', event = ''?'',
          critical_moments =
            [\<lparr>fen = ''fen'', cm_move_number = 1, cm_turn = ''Noirs'', best_move = ''e4'',
              best_move_eval = ''a'', second_best_move = ''d4'', second_best_move_eval = ''b'',
              difference = (8556839292003942, - 52)\<rparr>,
             \<lparr>fen = ''fen'', cm_move_number = 1, cm_turn = ''Blancs'', best_move = ''e4'',
              best_move_eval = ''a'', second_best_move = ''d4'', second_best_move_eval = ''b'',
              difference = (8556839292003942, - 52)\<rparr>]\<rparr>]] key"
    proof (cases "key \<in> written_keys")
      case True
      then show ?thesis using v r' by (auto simp add: written_keys_def)
    next
      case False
      then have "final key = None" using d by blast
      then show ?thesis using False by (simp add: written_keys_def)
    qed
  qed
  then show ?thesis
    using f by (simp add: get_progress_def)
qed

text \<open>
  C5 as stated fails for a corpus whose games have no moves: there are \<open>N = 0\<close>
  positions, no task fails, the loop body never runs, and the job ends completed with
  a percentage of 0.
\<close>

theorem job_without_positions_stays_at_zero:
  "snd (get_progress
          (analyze_pgn_async plain_lib Map.empty ''job'' (Inr [bare_game]) dead_engines [])
          ''job'')
   = [''status'' \<mapsto> PyStr ''completed'', ''progress'' \<mapsto> PyInt 0, ''total_moves'' \<mapsto> PyInt 0,
      ''current_move'' \<mapsto> PyInt 0, ''error'' \<mapsto> PyNone,
      ''results'' \<mapsto> PyGames
        [\<lparr>gi_game_number = 1, white = ''?'', black = ''?'', result = ''*'',
          date = ''????.??.??'', event = ''?'', critical_moments = []\<rparr>]]"
  by (rule ext)
     (simp add: get_progress_def analyze_pgn_async_def job_writes_def bare_game_def Let_def
       apply_write_def init_entry_def starting_fields_def make_game_info_def headers_get_def
       pgn_headers_fields)

section \<open>Worker count\<close>

text \<open>
  C7, as the source has it: the worker count is the host's CPU count when
  \<^verbatim>\<open>os.cpu_count()\<close> reports a positive number, and 4 when it reports nothing
  (\<^verbatim>\<open>None\<close>) or zero. The value 4 is a fallback, not a lower bound.
\<close>

theorem MAX_WORKERS_fallback:
  "MAX_WORKERS None = 4 \<and> MAX_WORKERS (Some 0) = 4 \<and> MAX_WORKERS (Some (Suc n)) = Suc n"
  by (simp add: MAX_WORKERS_def)

text \<open>
  C7 as stated fails: on a host with two CPUs the pool has two workers, fewer than 4.
\<close>

theorem MAX_WORKERS_below_four: "MAX_WORKERS (Some 2) = 2 \<and> MAX_WORKERS (Some 2) < 4"
  by (simp add: MAX_WORKERS_def)

end
